theory Spec2Isabelle
  imports Main "HOL-Library.AList"
begin

text \<open>
  A model of the command module (\<open>lib/command.js\<close>: registry, start, dispatch, context
  derivation) and of the process part of the helper module (fork, spawn, the exit
  hooks, exec-argv extraction). Libraries outside the repository (yargs, the yargs
  parser, change-case, dargs, the file system, child processes) enter as parameters.
  Console and debug output is left out.
\<close>

section \<open>JavaScript values and objects\<close>

text \<open>
  The values that flow through the command module and the helper module: the parsed argv
  of the external parser holds booleans, numbers, strings and the positional array;
  a child's exit code is a number or \<open>null\<close>. Numbers are modelled as integers (ports
  and exit codes).
\<close>

datatype js_value = Undefined | Null | Bool bool | Num int | Str string | Arr "js_value list"

text \<open>
  A plain object is its list of own properties in insertion order. Assigning to an
  existing key keeps the key's position, assigning to a new key appends it
  (\<open>AList.update\<close>). Reading a missing key yields \<open>undefined\<close>.
\<close>

type_synonym obj = "(string \<times> js_value) list"

definition obj_get :: "obj \<Rightarrow> string \<Rightarrow> js_value" where
  "obj_get ob k = (case map_of ob k of None \<Rightarrow> Undefined | Some v \<Rightarrow> v)"

definition obj_set :: "obj \<Rightarrow> string \<Rightarrow> js_value \<Rightarrow> obj" where
  "obj_set ob k v = AList.update k v ob"

definition Object_keys :: "obj \<Rightarrow> string list" where
  "Object_keys ob = map fst ob"

definition Object_assign :: "obj \<Rightarrow> obj \<Rightarrow> obj" where
  "Object_assign target src = fold (\<lambda>k t. obj_set t k (obj_get src k)) (Object_keys src) target"

fun truthy :: "js_value \<Rightarrow> bool" where
  "truthy Undefined = False"
| "truthy Null = False"
| "truthy (Bool b) = b"
| "truthy (Num n) = (n \<noteq> 0)"
| "truthy (Str s) = (s \<noteq> [])"
| "truthy (Arr xs) = True"

fun is_number :: "js_value \<Rightarrow> bool" where
  "is_number (Num n) = True"
| "is_number v = False"

text \<open>\<open>a || b\<close>\<close>

definition js_or :: "js_value \<Rightarrow> js_value \<Rightarrow> js_value" where
  "js_or a b = (if truthy a then a else b)"

text \<open>\<open>[...new Set(xs)]\<close>: the first occurrence of every element, in order.\<close>

definition uniq :: "'a list \<Rightarrow> 'a list" where
  "uniq xs = rev (remdups (rev xs))"

section \<open>Helper module: exec-argv extraction\<close>

text \<open>
  \<open>match(key, arr)\<close> of the helper module: an entry of \<open>arr\<close> is a string, compared
  with \<open>===\<close>, or a regular expression. The only regular expression passed is
  \<open>/^harmony.*/\<close>, which accepts exactly the keys that begin with \<open>harmony\<close>.
\<close>

datatype matcher = Exact string | StartsWith string

fun matches :: "string \<Rightarrow> matcher \<Rightarrow> bool" where
  "matches key (Exact s) = (s = key)"
| "matches key (StartsWith p) = (take (length p) key = p)"

definition match :: "string \<Rightarrow> matcher list \<Rightarrow> bool" where
  "match key arr = list_ex (matches key) arr"

definition debug_family :: "string list" where
  "debug_family = [''debug'', ''debug-brk'', ''debug-port'', ''inspect'', ''inspect-brk'', ''inspect-port'']"

definition exec_patterns :: "matcher list" where
  "exec_patterns = [Exact ''es_staging'', Exact ''expose_debug_as'', StartsWith ''harmony'']"

record exec_argv =
  debugPort :: js_value
  debugOptions :: obj
  execArgvObj :: obj

text \<open>One iteration of the loop over \<open>Object.keys(argv)\<close> in \<open>extractExecArgv\<close>.\<close>

definition extract_step :: "obj \<Rightarrow> string \<Rightarrow> exec_argv \<Rightarrow> exec_argv" where
  "extract_step argv key acc =
     (let value = obj_get argv key in
      if value = Undefined then acc
      else if key \<in> set debug_family then
        acc\<lparr> debugPort := (if is_number value then value else debugPort acc),
             debugOptions := obj_set (debugOptions acc) key value,
             execArgvObj := obj_set (execArgvObj acc) key value \<rparr>
      else if match key exec_patterns then
        acc\<lparr> execArgvObj := obj_set (execArgvObj acc) key value \<rparr>
      else acc)"

definition extractExecArgv :: "obj \<Rightarrow> exec_argv" where
  "extractExecArgv argv =
     fold (extract_step argv) (Object_keys argv)
       \<lparr> debugPort = Undefined, debugOptions = [], execArgvObj = [] \<rparr>"

section \<open>Command module: the execution context\<close>

text \<open>
  What the module reads from outside the repository: \<open>process.argv\<close>, the working
  directory and the environment of the process, \<open>changeCase.camel\<close>, the yargs parser applied to the
  string of \<open>$NODE_DEBUG_OPTION\<close>, and \<open>dargs\<close> (\<open>unparse\<close>).
\<close>

record host =
  h_argv :: "string list"
  h_cwd :: string
  h_env :: "(string \<times> string) list"
  h_camel :: "string \<Rightarrow> string"
  h_parser :: "string \<Rightarrow> obj"
  h_unparse :: "obj \<Rightarrow> string list"

record parser_options =
  execArgv :: bool
  removeAlias :: bool
  removeCamelCase :: bool

text \<open>The options the base constructor sets.\<close>

definition default_parserOptions :: parser_options where
  "default_parserOptions = \<lparr> execArgv = True, removeAlias = True, removeCamelCase = False \<rparr>"

record exec_context =
  ctx_argv :: obj
  ctx_cwd :: string
  ctx_env :: "(string \<times> string) list"
  ctx_rawArgv :: "string list"
  ctx_execArgv :: "string list option"
  ctx_execArgvObj :: "obj option"
  ctx_debugOptions :: "obj option"
  ctx_debugPort :: "js_value option"

text \<open>A key that is present in an object with the value undefined.\<close>

definition cleared :: "string \<Rightarrow> obj \<Rightarrow> bool" where
  "cleared k a = (k \<in> set (Object_keys a) \<and> obj_get a k = Undefined)"

definition unparseArgv :: "host \<Rightarrow> obj \<Rightarrow> string list" where
  "unparseArgv h argv = uniq (h_unparse h argv)"

text \<open>\<open>argv.help = undefined; argv.h = undefined; argv.version = undefined; argv.v = undefined\<close>\<close>

definition clear_global :: "obj \<Rightarrow> obj" where
  "clear_global argv =
     obj_set (obj_set (obj_set (obj_set argv ''help'' Undefined) ''h'' Undefined)
       ''version'' Undefined) ''v'' Undefined"

text \<open>The loop over \<open>yargs.getOptions().alias\<close>: every aliased key is set to undefined.\<close>

definition remove_alias :: "(string \<times> string list) list \<Rightarrow> obj \<Rightarrow> obj" where
  "remove_alias aliases argv =
     fold (\<lambda>key a. case map_of aliases key of
                      None \<Rightarrow> a
                    | Some items \<Rightarrow> fold (\<lambda>item a'. obj_set a' item Undefined) items a)
          (map fst aliases) argv"

text \<open>The loop over the keys of argv (as they are when the loop starts) that contain a hyphen.\<close>

definition remove_camel :: "host \<Rightarrow> obj \<Rightarrow> obj" where
  "remove_camel h argv =
     fold (\<lambda>key a. if CHR ''-'' \<in> set key then obj_set a (h_camel h key) Undefined else a)
          (Object_keys argv) argv"

definition clean_argv :: "parser_options \<Rightarrow> (string \<times> string list) list \<Rightarrow> host \<Rightarrow> obj \<Rightarrow> obj" where
  "clean_argv po aliases h argv =
     (let a1 = clear_global argv;
          a2 = (if removeAlias po then remove_alias aliases a1 else a1)
      in if removeCamelCase po then remove_camel h a2 else a2)"

text \<open>
  Extraction from the command argv, then from \<open>$NODE_DEBUG_OPTION\<close> when it is set to a
  non-empty string: \<open>debugPort = obj.debugPort || debugPort\<close> and the two
  \<open>Object.assign\<close> calls.
\<close>

definition merge_exec :: "host \<Rightarrow> obj \<Rightarrow> exec_argv" where
  "merge_exec h argv =
     (let fromArgv = extractExecArgv argv in
      case map_of (h_env h) ''NODE_DEBUG_OPTION'' of
        None \<Rightarrow> fromArgv
      | Some s \<Rightarrow>
          if s = [] then fromArgv
          else (let fromEnv = extractExecArgv (h_parser h s) in
            \<lparr> debugPort = js_or (debugPort fromEnv) (debugPort fromArgv),
              debugOptions = Object_assign (debugOptions fromArgv) (debugOptions fromEnv),
              execArgvObj = Object_assign (execArgvObj fromArgv) (execArgvObj fromEnv) \<rparr>))"

text \<open>\<open>argv[key] = undefined; argv[changeCase.camel(key)] = undefined\<close> for every extracted key.\<close>

definition remove_exec :: "host \<Rightarrow> obj \<Rightarrow> obj \<Rightarrow> obj" where
  "remove_exec h eobj argv =
     fold (\<lambda>key a. obj_set (obj_set a key Undefined) (h_camel h key) Undefined)
          (Object_keys eobj) argv"

text \<open>
  The body of the \<open>context\<close> getter, run when no context is memoised yet. \<open>argv\<close> is
  \<open>this.yargs.argv\<close>, \<open>aliases\<close> is \<open>this.yargs.getOptions().alias\<close>. The warning
  about \<open>expose_debug_as\<close> only prints.
\<close>

definition build_context ::
  "parser_options \<Rightarrow> (string \<times> string list) list \<Rightarrow> host \<Rightarrow> string list \<Rightarrow> obj \<Rightarrow> exec_context" where
  "build_context po aliases h rawArgv argv =
     (let a = clean_argv po aliases h argv;
          base = \<lparr> ctx_argv = a, ctx_cwd = h_cwd h, ctx_env = h_env h, ctx_rawArgv = rawArgv,
                   ctx_execArgv = None, ctx_execArgvObj = None, ctx_debugOptions = None,
                   ctx_debugPort = None \<rparr>
      in if execArgv po then
           (let ex = merge_exec h a;
                a' = remove_exec h (execArgvObj ex) a
            in if Object_keys (execArgvObj ex) \<noteq> [] then
                 base\<lparr> ctx_argv := a',
                       ctx_execArgv := Some (unparseArgv h (execArgvObj ex)),
                       ctx_execArgvObj := Some (execArgvObj ex),
                       ctx_debugOptions := Some (debugOptions ex),
                       ctx_debugPort := Some (debugPort ex) \<rparr>
               else base\<lparr> ctx_argv := a' \<rparr>)
         else base)"

section \<open>Command module: registry\<close>

datatype js_error = AssertionError string | TypeError string | Error string js_value

text \<open>
  A command class, as far as the dispatcher looks at it: its name, its static \<open>alias\<close>,
  and what its constructor sets up (version, parser options, registered subcommands).
  Commands form a tree.
\<close>

datatype cmd_class =
  CmdClass (c_name: string) (c_alias: "string option") (c_version: "string option")
    (c_parserOptions: parser_options) (c_commands: "(string \<times> cmd_class) list")

text \<open>
  The yargs instance of a node (external): \<open>yargs.parse(rawArgv, callback)\<close>, the \<open>argv\<close>
  getter, which parses the array the instance was created with, and
  \<open>getOptions().alias\<close>.
\<close>

record yargs =
  y_parse :: "string list \<Rightarrow> js_error + obj"
  y_argv :: "string list \<Rightarrow> obj"
  y_alias :: "(string \<times> string list) list"

record node =
  rawArgv :: "string list"
  n_name :: string
  n_yargs :: yargs
  parserOptions :: parser_options
  COMMANDS :: "(string \<times> cmd_class) list"
  VERSION :: "string option"
  CONTEXT :: "exec_context option"

text \<open>
  The constructor: \<open>this.rawArgv = rawArgv || process.argv.slice(2)\<close>; the array is
  kept as it is given. \<open>lib\<close> is the yargs instance a class ends up with.
\<close>

definition construct :: "(cmd_class \<Rightarrow> yargs) \<Rightarrow> host \<Rightarrow> cmd_class \<Rightarrow> string list option \<Rightarrow> node" where
  "construct lib h cls given =
     \<lparr> rawArgv = (case given of Some v \<Rightarrow> v | None \<Rightarrow> drop 2 (h_argv h)),
       n_name = c_name cls,
       n_yargs = lib cls,
       parserOptions = c_parserOptions cls,
       COMMANDS = c_commands cls,
       VERSION = c_version cls,
       CONTEXT = None \<rparr>"

text \<open>
  The target of \<open>add\<close> is a command class or a file path; a file is loaded with
  \<open>require\<close> and exports a command class, a function that returns one when called with
  the node, \<open>null\<close> or \<open>undefined\<close> (reading \<open>target.prototype\<close> then throws a
  \<open>TypeError\<close>), or some other value.
\<close>

datatype module_export =
  ExportClass cmd_class | ExportFunction cmd_class | ExportNull | ExportOther

datatype target = Class cmd_class | Path string

record loader =
  l_isFile :: "string \<Rightarrow> bool"
  l_require :: "string \<Rightarrow> module_export"

definition resolve_target :: "loader \<Rightarrow> target \<Rightarrow> js_error + cmd_class" where
  "resolve_target ld t =
     (case t of
        Class c \<Rightarrow> Inr c
      | Path p \<Rightarrow>
          if \<not> l_isFile ld p then Inl (AssertionError (p @ '' is not a file.''))
          else (case l_require ld p of
                  ExportClass c \<Rightarrow> Inr c
                | ExportFunction c \<Rightarrow> Inr c
                | ExportNull \<Rightarrow> Inl (TypeError ''Cannot read property prototype of null'')
                | ExportOther \<Rightarrow>
                    Inl (AssertionError ''command class should be sub class of CommonBin'')))"

text \<open>The method \<open>alias(alias, name)\<close>.\<close>

definition alias_command :: "string \<Rightarrow> string \<Rightarrow> node \<Rightarrow> js_error + node" where
  "alias_command al name n =
     (if al = [] then Inl (AssertionError ''alias command name is required'')
      else case map_of (COMMANDS n) name of
             None \<Rightarrow> Inl (AssertionError (name @ '' should be added first''))
           | Some cls \<Rightarrow> Inr (n\<lparr> COMMANDS := AList.update al cls (COMMANDS n) \<rparr>))"

definition add :: "loader \<Rightarrow> string \<Rightarrow> target \<Rightarrow> node \<Rightarrow> js_error + node" where
  "add ld name t n =
     (if name = [] then Inl (AssertionError (name @ '' is required''))
      else case resolve_target ld t of
             Inl e \<Rightarrow> Inl e
           | Inr cls \<Rightarrow>
               (let n' = n\<lparr> COMMANDS := AList.update name cls (COMMANDS n) \<rparr> in
                case c_alias cls of
                  None \<Rightarrow> Inr n'
                | Some a \<Rightarrow> if a = [] then Inr n' else alias_command a name n'))"

section \<open>Command module: start and dispatch\<close>

fun indexOf :: "'a list \<Rightarrow> 'a \<Rightarrow> int" where
  "indexOf [] x = - 1"
| "indexOf (y # ys) x =
     (if y = x then 0 else (let i = indexOf ys x in if i < 0 then - 1 else i + 1))"

text \<open>
  \<open>xs.splice(start, deleteCount, ...items)\<close>, the array afterwards. A negative start
  counts from the end, so \<open>splice(-1, 1)\<close> removes the last element.
\<close>

definition js_splice :: "int \<Rightarrow> nat \<Rightarrow> 'a list \<Rightarrow> 'a list \<Rightarrow> 'a list" where
  "js_splice start deleteCount items xs =
     (let len = int (length xs);
          actualStart = nat (if start < 0 then max (len + start) 0 else min start len);
          actualDelete = min deleteCount (length xs - actualStart)
      in take actualStart xs @ items @ drop (actualStart + actualDelete) xs)"

fun join :: "string \<Rightarrow> string list \<Rightarrow> string" where
  "join sep [] = []"
| "join sep [x] = x"
| "join sep (x # y # ys) = x @ sep @ join sep (y # ys)"

datatype outcome =
    Failed js_error
  | PrintedVersion string
  | Completions "string list"
  | RunCalled string exec_context
  | Exited int

text \<open>The \<open>context\<close> getter: built once per node and memoised.\<close>

definition get_context :: "host \<Rightarrow> node \<Rightarrow> exec_context \<times> node" where
  "get_context h n =
     (case CONTEXT n of
        Some c \<Rightarrow> (c, n)
      | None \<Rightarrow>
          (let c = build_context (parserOptions n) (y_alias (n_yargs n)) h (rawArgv n)
                     (y_argv (n_yargs n) (rawArgv n))
           in (c, n\<lparr> CONTEXT := Some c \<rparr>)))"

text \<open>\<open>parsed._[0]\<close>\<close>

fun first_positional :: "js_value \<Rightarrow> js_error + js_value" where
  "first_positional (Arr []) = Inr Undefined"
| "first_positional (Arr (x # xs)) = Inr x"
| "first_positional Undefined = Inl (TypeError ''Cannot read property 0 of undefined'')"
| "first_positional Null = Inl (TypeError ''Cannot read property 0 of null'')"
| "first_positional (Str []) = Inr Undefined"
| "first_positional (Str (c # cs)) = Inr (Str [c])"
| "first_positional v = Inr Undefined"

text \<open>
  The part of the dispatcher after the subcommand test: the node handles the vector
  itself, printing completions or calling its own \<open>run\<close> with the context. (Before
  that it tells yargs the names of its subcommands, for the help text.)
\<close>

definition run_self :: "host \<Rightarrow> node \<Rightarrow> outcome \<times> node" where
  "run_self h n =
     (let (ctx, n') = get_context h n in
      if truthy (obj_get (ctx_argv ctx) ''AUTO_COMPLETIONS'')
      then (Completions (drop 1 (rawArgv n')), n')
      else (RunCalled (n_name n') ctx, n'))"

text \<open>
  The vector handed to the subcommand: \<open>this.rawArgv.slice()\<close>, then
  \<open>splice(indexOf(commandName), 1)\<close> on the copy.
\<close>

definition reduced_argv :: "string list \<Rightarrow> string \<Rightarrow> string list" where
  "reduced_argv raw commandName = js_splice (indexOf raw commandName) 1 [] raw"

definition version_requested :: "obj \<Rightarrow> node \<Rightarrow> bool" where
  "version_requested parsed n =
     (truthy (obj_get parsed ''version'') \<and> (case VERSION n of None \<Rightarrow> False | Some v \<Rightarrow> v \<noteq> []))"

definition commands_size :: "(string \<times> cmd_class) list \<Rightarrow> nat" where
  "commands_size cs = size_list (\<lambda>p. size (snd p)) cs"

function DISPATCH :: "(cmd_class \<Rightarrow> yargs) \<Rightarrow> host \<Rightarrow> node \<Rightarrow> outcome \<times> node" where
  "DISPATCH lib h n =
     (case y_parse (n_yargs n) (rawArgv n) of
        Inl e \<Rightarrow> (Failed e, n)
      | Inr parsed \<Rightarrow>
          (case first_positional (obj_get parsed ''_'') of
             Inl e \<Rightarrow> (Failed e, n)
           | Inr commandName \<Rightarrow>
               if version_requested parsed n then (PrintedVersion (the (VERSION n)), n)
               else (case commandName of
                       Str name \<Rightarrow>
                         (case map_of (COMMANDS n) name of
                            Some Command \<Rightarrow>
                              (fst (DISPATCH lib h
                                 (construct lib h Command (Some (reduced_argv (rawArgv n) name)))), n)
                          | None \<Rightarrow> run_self h n)
                     | _ \<Rightarrow> run_self h n)))"
  by pat_completeness auto

lemma commands_size_lookup:
  "map_of cs name = Some c \<Longrightarrow> commands_size (c_commands c) < commands_size cs"
proof (induction cs)
  case Nil
  then show ?case by simp
next
  case (Cons p ps)
  have le: "size_list (\<lambda>p. size (snd p)) xs \<le> size_list (size_prod (\<lambda>x. 0) size) xs"
    for xs :: "(string \<times> cmd_class) list"
    by (induction xs) auto
  have own: "commands_size (c_commands c) < size c"
    by (cases c) (simp add: commands_size_def le less_Suc_eq_le)
  show ?case
  proof (cases "fst p = name")
    case True
    with Cons.prems have "snd p = c" by (cases p) simp
    with own show ?thesis by (simp add: commands_size_def)
  next
    case False
    with Cons.prems have "map_of ps name = Some c" by (cases p) simp
    from Cons.IH [OF this] show ?thesis by (simp add: commands_size_def)
  qed
qed

termination DISPATCH
  by (relation "measure (\<lambda>(lib, h, n). commands_size (COMMANDS n))")
    (auto simp: construct_def dest: commands_size_lookup)

text \<open>
  \<open>start\<close>: the completion marker is replaced in place in \<open>this.rawArgv\<close>, then the node
  dispatches; a failure reaches \<open>errorHandler\<close>, which ends the process with status 1.
  A context memoised before holds the very array of the node as its \<open>rawArgv\<close>, so it
  shows the splice as well.
\<close>

definition start_argv :: "string list \<Rightarrow> string list" where
  "start_argv raw =
     (let index = indexOf raw ''--get-yargs-completions'' in
      if index \<noteq> - 1
      then js_splice index 2 [''--AUTO_COMPLETIONS='' @ join '','' raw] raw
      else raw)"

definition start_node :: "node \<Rightarrow> node" where
  "start_node n =
     (if indexOf (rawArgv n) ''--get-yargs-completions'' \<noteq> - 1
      then n\<lparr> rawArgv := start_argv (rawArgv n),
              CONTEXT := map_option (\<lambda>c. c\<lparr> ctx_rawArgv := start_argv (rawArgv n) \<rparr>)
                           (CONTEXT n) \<rparr>
      else n)"

definition start :: "(cmd_class \<Rightarrow> yargs) \<Rightarrow> host \<Rightarrow> node \<Rightarrow> outcome \<times> node" where
  "start lib h n =
     (let n1 = start_node n in
      case DISPATCH lib h n1 of
        (Failed e, n2) \<Rightarrow> (Exited 1, n2)
      | (r, n2) \<Rightarrow> (r, n2))"

section \<open>Helper module: child processes\<close>

text \<open>
  A child process object is known by its identity. \<open>childs\<close> is a \<open>Set\<close>: adding a member
  again changes nothing, iteration follows insertion order.
\<close>

type_synonym handle = nat

definition set_add :: "'a \<Rightarrow> 'a list \<Rightarrow> 'a list" where
  "set_add x xs = (if x \<in> set xs then xs else xs @ [x])"

definition set_delete :: "'a \<Rightarrow> 'a list \<Rightarrow> 'a list" where
  "set_delete x xs = removeAll x xs"

datatype launch_kind = ByFork | BySpawn

datatype settlement = Pending | Resolved | Rejected js_error

text \<open>
  One launch: what the closures of \<open>forkNode\<close> or \<open>spawn\<close> hold, the \<open>once\<close> listeners
  still installed on the child, and the state of the promise returned to the caller.
\<close>

record launch =
  l_kind :: launch_kind
  l_cmd :: string
  l_args :: "string list"
  l_once :: "string list"
  l_promise :: settlement

text \<open>
  The module state: the set \<open>childs\<close>, the flag \<open>hadHook\<close>, the variable \<open>signal\<close> of the
  hook, the \<open>once\<close> listeners installed on \<open>process\<close>, and the launches made so far.
  \<open>kills\<close> records every call \<open>child.kill(signal)\<close> and \<open>deleted\<close> every call
  \<open>childs.delete(proc)\<close>, in order; \<open>installs\<close> counts how often the hooks were installed.
\<close>

record supervisor =
  childs :: "handle list"
  hadHook :: bool
  signal :: "string option"
  listeners :: "string list"
  launches :: "(handle \<times> launch) list"
  kills :: "(handle \<times> string option) list"
  deleted :: "handle list"
  installs :: nat

definition initial :: supervisor where
  "initial = \<lparr> childs = [], hadHook = False, signal = None, listeners = [],
               launches = [], kills = [], deleted = [], installs = 0 \<rparr>"

definition gracefull :: "handle \<Rightarrow> supervisor \<Rightarrow> supervisor" where
  "gracefull proc s =
     (let s1 = s\<lparr> childs := set_add proc (childs s) \<rparr> in
      if \<not> hadHook s1
      then s1\<lparr> hadHook := True,
               listeners := listeners s1 @ [''SIGINT'', ''SIGQUIT'', ''SIGTERM'', ''exit''],
               installs := Suc (installs s1) \<rparr>
      else s1)"

text \<open>
  \<open>proc\<close> is the object that \<open>cp.fork\<close> or \<open>spawn\<close> returns. The launch registers the
  child, installs its listeners and returns the pending promise.
\<close>

definition forkNode :: "handle \<Rightarrow> string \<Rightarrow> string list \<Rightarrow> supervisor \<Rightarrow> supervisor" where
  "forkNode proc modulePath args s =
     (let s1 = gracefull proc s in
      s1\<lparr> launches := AList.update proc
             \<lparr> l_kind = ByFork, l_cmd = modulePath, l_args = args,
               l_once = [''exit''], l_promise = Pending \<rparr> (launches s1) \<rparr>)"

definition spawn :: "handle \<Rightarrow> string \<Rightarrow> string list \<Rightarrow> supervisor \<Rightarrow> supervisor" where
  "spawn proc cmd args s =
     (let s1 = gracefull proc s in
      s1\<lparr> launches := AList.update proc
             \<lparr> l_kind = BySpawn, l_cmd = cmd, l_args = args,
               l_once = [''error'', ''exit''], l_promise = Pending \<rparr> (launches s1) \<rparr>)"

text \<open>Template strings: a number in decimal, \<open>null\<close> as the word.\<close>

function digits :: "nat \<Rightarrow> string" where
  "digits n = (if n < 10 then [''0123456789'' ! n] else digits (n div 10) @ [''0123456789'' ! (n mod 10)])"
  by pat_completeness auto
termination
  by (relation "measure id") auto

definition show_int :: "int \<Rightarrow> string" where
  "show_int i = (if i < 0 then ''-'' @ digits (nat (- i)) else digits (nat i))"

fun code_text :: "int option \<Rightarrow> string" where
  "code_text None = ''null''"
| "code_text (Some c) = show_int c"

fun code_value :: "int option \<Rightarrow> js_value" where
  "code_value None = Null"
| "code_value (Some c) = Num c"

text \<open>The error a launch rejects with when the child exits with \<open>code !== 0\<close>.\<close>

definition exit_error :: "launch \<Rightarrow> int option \<Rightarrow> js_error" where
  "exit_error l code =
     (case l_kind l of
        ByFork \<Rightarrow>
          Error (l_cmd l @ '' '' @ join '','' (l_args l) @ '' exit with code '' @ code_text code)
                (code_value code)
      | BySpawn \<Rightarrow>
          Error (''spawn '' @ l_cmd l @ '' '' @ join '' '' (l_args l) @ '' fail, exit code: ''
                   @ code_text code)
                Undefined)"

text \<open>\<open>resolve()\<close> and \<open>reject(err)\<close>: only a pending promise changes.\<close>

definition settle :: "settlement \<Rightarrow> launch \<Rightarrow> launch" where
  "settle r l = (if l_promise l = Pending then l\<lparr> l_promise := r \<rparr> else l)"

datatype child_event = ExitEvent "int option" | ErrorEvent js_error

text \<open>
  The child emits an event. A \<open>once\<close> listener is removed when it is called; an event
  nobody listens to leaves the module state as it is.
\<close>

definition child_emit :: "handle \<Rightarrow> child_event \<Rightarrow> supervisor \<Rightarrow> supervisor" where
  "child_emit proc ev s =
     (case map_of (launches s) proc of
        None \<Rightarrow> s
      | Some l \<Rightarrow>
          (case ev of
             ExitEvent code \<Rightarrow>
               if ''exit'' \<in> set (l_once l) then
                 (let l1 = l\<lparr> l_once := removeAll ''exit'' (l_once l) \<rparr>;
                      l2 = (if code \<noteq> Some 0 then settle (Rejected (exit_error l code)) l1
                            else settle Resolved l1)
                  in s\<lparr> childs := set_delete proc (childs s),
                        deleted := deleted s @ [proc],
                        launches := AList.update proc l2 (launches s) \<rparr>)
               else s
           | ErrorEvent err \<Rightarrow>
               if ''error'' \<in> set (l_once l) then
                 s\<lparr> launches := AList.update proc
                        (settle (Rejected err) (l\<lparr> l_once := removeAll ''error'' (l_once l) \<rparr>))
                        (launches s) \<rparr>
               else s))"

text \<open>The listener of the \<open>exit\<close> event of the process: every member of \<open>childs\<close> is killed.\<close>

definition exit_hook :: "supervisor \<Rightarrow> supervisor" where
  "exit_hook s = s\<lparr> kills := kills s @ map (\<lambda>child. (child, signal s)) (childs s) \<rparr>"

text \<open>
  The process emits \<open>exit\<close>: each \<open>once\<close> listener installed for it runs and is removed.
\<close>

definition emit_exit :: "supervisor \<Rightarrow> supervisor" where
  "emit_exit s =
     (let k = count_list (listeners s) ''exit'';
          s1 = s\<lparr> listeners := removeAll ''exit'' (listeners s) \<rparr>
      in (exit_hook ^^ k) s1)"

text \<open>The listener of a signal: \<open>signal = event; process.exit(0)\<close>.\<close>

definition signal_hook :: "string \<Rightarrow> supervisor \<Rightarrow> supervisor" where
  "signal_hook ev s = emit_exit (s\<lparr> signal := Some ev \<rparr>)"

text \<open>The process receives a signal (\<open>exit\<close> is an event of its own, not a signal).\<close>

definition emit_signal :: "string \<Rightarrow> supervisor \<Rightarrow> supervisor" where
  "emit_signal ev s =
     (if ev = ''exit'' then s
      else (let k = count_list (listeners s) ev;
                s1 = s\<lparr> listeners := removeAll ev (listeners s) \<rparr>
            in (signal_hook ev ^^ k) s1))"

text \<open>
  What can happen to the module, one event at a time. The model goes on after
  \<open>process.exit\<close>, so that a repeated exit event can be examined.
\<close>

datatype event =
    Fork handle string "string list"
  | Spawn handle string "string list"
  | Child handle child_event
  | Signal string
  | ProcessExit

fun step :: "event \<Rightarrow> supervisor \<Rightarrow> supervisor" where
  "step (Fork proc modulePath args) s = forkNode proc modulePath args s"
| "step (Spawn proc cmd args) s = spawn proc cmd args s"
| "step (Child proc ev) s = child_emit proc ev s"
| "step (Signal ev) s = emit_signal ev s"
| "step ProcessExit s = emit_exit s"

definition run :: "event list \<Rightarrow> supervisor \<Rightarrow> supervisor" where
  "run evs s = fold step evs s"

text \<open>The process whose launch an event is, and the events of the process itself.\<close>

fun launch_of :: "event \<Rightarrow> handle option" where
  "launch_of (Fork proc modulePath args) = Some proc"
| "launch_of (Spawn proc cmd args) = Some proc"
| "launch_of e = None"

fun exit_of :: "event \<Rightarrow> handle option" where
  "exit_of (Child proc (ExitEvent code)) = Some proc"
| "exit_of e = None"

fun process_event :: "event \<Rightarrow> bool" where
  "process_event (Signal ev) = True"
| "process_event ProcessExit = True"
| "process_event e = False"

definition promise_of :: "supervisor \<Rightarrow> handle \<Rightarrow> settlement option" where
  "promise_of s proc = map_option l_promise (map_of (launches s) proc)"

text \<open>How often a child was killed, with whatever signal.\<close>

definition kill_count :: "supervisor \<Rightarrow> handle \<Rightarrow> nat" where
  "kill_count s proc = length (filter (\<lambda>k. fst k = proc) (kills s))"

section \<open>Invariants of the module state\<close>

definition sup_inv :: "supervisor \<Rightarrow> bool" where
  "sup_inv s =
     (distinct (childs s) \<and> distinct (listeners s)
      \<and> installs s = (if hadHook s then 1 else 0)
      \<and> (\<not> hadHook s \<longrightarrow> listeners s = [] \<and> kills s = [])
      \<and> (''exit'' \<in> set (listeners s) \<longrightarrow> kills s = []))"

text \<open>
  The three stages of a child: not launched yet; launched, with the \<open>exit\<close> listener
  waiting; exit notified.
\<close>

definition unlaunched :: "handle \<Rightarrow> supervisor \<Rightarrow> bool" where
  "unlaunched p s =
     (map_of (launches s) p = None \<and> p \<notin> set (childs s) \<and> count_list (deleted s) p = 0)"

definition awaiting :: "handle \<Rightarrow> supervisor \<Rightarrow> bool" where
  "awaiting p s =
     ((\<exists>l. map_of (launches s) p = Some l \<and> ''exit'' \<in> set (l_once l))
      \<and> p \<in> set (childs s) \<and> count_list (deleted s) p = 0)"

definition gone :: "handle \<Rightarrow> supervisor \<Rightarrow> bool" where
  "gone p s =
     ((\<exists>l. map_of (launches s) p = Some l \<and> ''exit'' \<notin> set (l_once l))
      \<and> p \<notin> set (childs s) \<and> count_list (deleted s) p = 1)"

text \<open>The hooks are installed and the \<open>exit\<close> listener has run: nothing is killed any more.\<close>

definition shut :: "supervisor \<Rightarrow> bool" where
  "shut s = (hadHook s \<and> ''exit'' \<notin> set (listeners s))"

text \<open>Two module states with the same registry, launches and deletions.\<close>

definition same_children :: "supervisor \<Rightarrow> supervisor \<Rightarrow> bool" where
  "same_children t s =
     (childs t = childs s \<and> launches t = launches s \<and> deleted t = deleted s)"

section \<open>Example inputs\<close>

text \<open>
  A parsed argv with a bare \<open>--inspect\<close> flag and a key that was set to undefined.
\<close>

definition bare_inspect_argv :: obj where
  "bare_inspect_argv = [(''_'', Arr []), (''inspect'', Bool True), (''color'', Undefined)]"

text \<open>
  A process whose environment sets \<open>$NODE_DEBUG_OPTION\<close>, with what the external functions
  return on the strings and objects that occur: the parser on the value of the variable
  (it adds the camel-case twin of a hyphenated key), \<open>camel\<close> and \<open>dargs\<close>.
\<close>

definition demo_camel :: "string \<Rightarrow> string" where
  "demo_camel k = (if k = ''debug-port'' then ''debugPort'' else k)"

definition demo_parser :: "string \<Rightarrow> obj" where
  "demo_parser s =
     (if s = ''--debug-port=6000 --expose_debug_as=dbg''
      then [(''_'', Arr []), (''debug-port'', Num 6000), (''debugPort'', Num 6000),
            (''expose_debug_as'', Str ''dbg'')]
      else [(''_'', Arr [])])"

definition demo_unparse :: "obj \<Rightarrow> string list" where
  "demo_unparse ob = map (\<lambda>k. ''--'' @ k) (Object_keys ob)"

definition debug_env_host :: host where
  "debug_env_host =
     \<lparr> h_argv = [''node'', ''reco'', ''--debug-port=5000'', ''--expose_debug_as=v8debug''],
       h_cwd = ''/work'',
       h_env = [(''NODE_DEBUG_OPTION'', ''--debug-port=6000 --expose_debug_as=dbg'')],
       h_camel = demo_camel, h_parser = demo_parser, h_unparse = demo_unparse \<rparr>"

definition debug_argv :: obj where
  "debug_argv = [(''_'', Arr []), (''debug-port'', Num 5000), (''debugPort'', Num 5000),
                 (''expose_debug_as'', Str ''v8debug'')]"

definition global_aliases :: "(string \<times> string list) list" where
  "global_aliases = [(''h'', [''help'']), (''v'', [''version''])]"

text \<open>
  A program with one subcommand, \<open>deploy\<close>, and the results of the external parser on the
  vectors that occur below. A flag written \<open>--env deploy\<close> takes the next token as its
  value; in \<open>--env --verbose=1 deploy\<close> the flag \<open>env\<close> has no value and is true.
  \<open>aliased_node\<close> is the main node after \<open>alias('d', 'deploy')\<close>.
\<close>

definition deploy_class :: cmd_class where
  "deploy_class = CmdClass ''DeployCommand'' None None default_parserOptions []"

definition rollout_class :: cmd_class where
  "rollout_class = CmdClass ''RolloutCommand'' None None default_parserOptions []"

definition main_class :: cmd_class where
  "main_class = CmdClass ''MainCommand'' None (Some ''1.0.0'') default_parserOptions
                  [(''deploy'', deploy_class)]"

definition demo_parse :: "string list \<Rightarrow> js_error + obj" where
  "demo_parse v =
     (if v = [''--env'', ''deploy'', ''--verbose=1'', ''deploy'']
      then Inr [(''_'', Arr [Str ''deploy'']), (''env'', Str ''deploy''), (''verbose'', Num 1)]
      else if v = [''--env'', ''--verbose=1'', ''deploy'']
      then Inr [(''_'', Arr [Str ''deploy'']), (''env'', Bool True), (''verbose'', Num 1)]
      else if v = [''deploy'', ''--env=prod'']
      then Inr [(''_'', Arr [Str ''deploy'']), (''env'', Str ''prod'')]
      else if v = [''d'', ''--env=prod'']
      then Inr [(''_'', Arr [Str ''d'']), (''env'', Str ''prod'')]
      else if v = [''--env=prod'']
      then Inr [(''_'', Arr []), (''env'', Str ''prod'')]
      else if v = [''--env'', ''deploy'', ''--verbose=1'', ''d'']
      then Inr [(''_'', Arr [Str ''d'']), (''env'', Str ''deploy''), (''verbose'', Num 1)]
      else if v = [''--env'', ''deploy'', ''--verbose=1'']
      then Inr [(''_'', Arr []), (''env'', Str ''deploy''), (''verbose'', Num 1)]
      else Inr [(''_'', Arr [])])"

definition demo_yargs :: yargs where
  "demo_yargs =
     \<lparr> y_parse = demo_parse,
       y_argv = (\<lambda>v. case demo_parse v of Inr a \<Rightarrow> a | Inl e \<Rightarrow> []),
       y_alias = global_aliases \<rparr>"

definition demo_lib :: "cmd_class \<Rightarrow> yargs" where
  "demo_lib cls = demo_yargs"

definition plain_host :: host where
  "plain_host =
     \<lparr> h_argv = [''node'', ''reco''], h_cwd = ''/work'', h_env = [],
       h_camel = demo_camel, h_parser = demo_parser, h_unparse = demo_unparse \<rparr>"

definition demo_loader :: loader where
  "demo_loader = \<lparr> l_isFile = (\<lambda>p. False), l_require = (\<lambda>p. ExportOther) \<rparr>"

definition main_node :: "string list \<Rightarrow> node" where
  "main_node v = construct demo_lib plain_host main_class (Some v)"

definition aliased_node :: "string list \<Rightarrow> node" where
  "aliased_node v =
     (main_node v)\<lparr> COMMANDS := [(''deploy'', deploy_class), (''d'', deploy_class)] \<rparr>"

text \<open>Two children are launched, one forked and one spawned.\<close>

definition two_children :: "event list" where
  "two_children = [Fork 1 ''build.js'' [''--watch''], Spawn 2 ''npm'' [''i'', ''left-pad'']]"

section \<open>Objects\<close>

lemma obj_get_set: "obj_get (obj_set ob k v) k' = (if k' = k then v else obj_get ob k')"
  by (simp add: obj_get_def obj_set_def update_conv')

lemma keys_obj_set: "set (Object_keys (obj_set ob k v)) = insert k (set (Object_keys ob))"
  unfolding Object_keys_def obj_set_def by (induction ob) auto

lemma obj_get_absent: "k \<notin> set (Object_keys ob) \<Longrightarrow> obj_get ob k = Undefined"
  unfolding obj_get_def Object_keys_def by (simp add: map_of_eq_None_iff[THEN iffD2])

lemma keys_empty: "Object_keys [] = []"
  by (simp add: Object_keys_def)

section \<open>Exec-argv extraction\<close>

text \<open>The keys that an iteration of the extraction loop copies into \<open>execArgvObj\<close>.\<close>

lemma extract_keys_exec:
  "set (Object_keys (execArgvObj (fold (extract_step argv) ks acc))) =
     set (Object_keys (execArgvObj acc)) \<union>
     {k \<in> set ks. obj_get argv k \<noteq> Undefined \<and> (k \<in> set debug_family \<or> match k exec_patterns)}"
  by (induction ks arbitrary: acc) (auto simp: extract_step_def Let_def keys_obj_set)

lemma extract_keys_debug:
  "set (Object_keys (debugOptions (fold (extract_step argv) ks acc))) =
     set (Object_keys (debugOptions acc)) \<union>
     {k \<in> set ks. obj_get argv k \<noteq> Undefined \<and> k \<in> set debug_family}"
  by (induction ks arbitrary: acc) (auto simp: extract_step_def Let_def keys_obj_set)

lemma extract_port:
  "(debugPort (fold (extract_step argv) ks acc) \<noteq> Undefined) =
     (debugPort acc \<noteq> Undefined \<or>
      (\<exists>k \<in> set ks. k \<in> set debug_family \<and> is_number (obj_get argv k)))"
proof (induction ks arbitrary: acc)
  case Nil
  then show ?case by simp
next
  case (Cons k ks)
  have one: "(debugPort (extract_step argv k acc) \<noteq> Undefined) =
      (debugPort acc \<noteq> Undefined \<or> (k \<in> set debug_family \<and> is_number (obj_get argv k)))"
    by (cases "obj_get argv k") (auto simp: extract_step_def Let_def)
  show ?case by (simp add: Cons one)
qed

lemma extract_val_exec:
  "obj_get (execArgvObj (fold (extract_step argv) ks acc)) k =
     (if k \<in> set ks \<and> obj_get argv k \<noteq> Undefined \<and>
         (k \<in> set debug_family \<or> match k exec_patterns)
      then obj_get argv k else obj_get (execArgvObj acc) k)"
  by (induction ks arbitrary: acc) (auto simp: extract_step_def Let_def obj_get_set)

lemma extract_val_debug:
  "obj_get (debugOptions (fold (extract_step argv) ks acc)) k =
     (if k \<in> set ks \<and> obj_get argv k \<noteq> Undefined \<and> k \<in> set debug_family
      then obj_get argv k else obj_get (debugOptions acc) k)"
  by (induction ks arbitrary: acc) (auto simp: extract_step_def Let_def obj_get_set)

text \<open>
  C10. For every argv given to \<open>extractExecArgv\<close>: a key whose value is undefined appears
  neither in \<open>debugOptions\<close> nor in \<open>execArgvObj\<close>; \<open>debugPort\<close> is defined exactly when
  some key of the debug/inspect family has a numeric value; and a boolean-valued key of
  the family is copied into \<open>debugOptions\<close> and \<open>execArgvObj\<close> (while, by the second
  part, it does not define \<open>debugPort\<close>).
\<close>

theorem extractExecArgv_undefined_and_port:
  "(\<forall>k. obj_get argv k = Undefined \<longrightarrow>
        k \<notin> set (Object_keys (debugOptions (extractExecArgv argv))) \<and>
        k \<notin> set (Object_keys (execArgvObj (extractExecArgv argv))))
   \<and> ((debugPort (extractExecArgv argv) \<noteq> Undefined) =
        (\<exists>k \<in> set (Object_keys argv). k \<in> set debug_family \<and> is_number (obj_get argv k)))
   \<and> (\<forall>k b. k \<in> set debug_family \<and> obj_get argv k = Bool b \<longrightarrow>
        obj_get (debugOptions (extractExecArgv argv)) k = Bool b \<and>
        obj_get (execArgvObj (extractExecArgv argv)) k = Bool b)"
proof (intro conjI allI impI)
  fix k assume "obj_get argv k = Undefined"
  then show "k \<notin> set (Object_keys (debugOptions (extractExecArgv argv)))"
    by (simp add: extractExecArgv_def extract_keys_debug keys_empty)
next
  fix k assume "obj_get argv k = Undefined"
  then show "k \<notin> set (Object_keys (execArgvObj (extractExecArgv argv)))"
    by (simp add: extractExecArgv_def extract_keys_exec keys_empty)
next
  show "(debugPort (extractExecArgv argv) \<noteq> Undefined) =
        (\<exists>k \<in> set (Object_keys argv). k \<in> set debug_family \<and> is_number (obj_get argv k))"
    by (simp add: extractExecArgv_def extract_port)
next
  fix k b assume a: "k \<in> set debug_family \<and> obj_get argv k = Bool b"
  then have "k \<in> set (Object_keys argv)" using obj_get_absent [of k argv] by auto
  with a show "obj_get (debugOptions (extractExecArgv argv)) k = Bool b"
    by (simp add: extractExecArgv_def extract_val_debug)
next
  fix k b assume a: "k \<in> set debug_family \<and> obj_get argv k = Bool b"
  then have "k \<in> set (Object_keys argv)" using obj_get_absent [of k argv] by auto
  with a show "obj_get (execArgvObj (extractExecArgv argv)) k = Bool b"
    by (simp add: extractExecArgv_def extract_val_exec)
qed

theorem extractExecArgv_undefined_and_port_witness:
  "''color'' \<notin> set (Object_keys (execArgvObj (extractExecArgv bare_inspect_argv)))
   \<and> debugPort (extractExecArgv bare_inspect_argv) = Undefined
   \<and> obj_get (debugOptions (extractExecArgv bare_inspect_argv)) ''inspect'' = Bool True
   \<and> obj_get (execArgvObj (extractExecArgv bare_inspect_argv)) ''inspect'' = Bool True"
proof -
  have u: "obj_get bare_inspect_argv ''color'' = Undefined"
    by (simp add: bare_inspect_argv_def obj_get_def)
  have b: "''inspect'' \<in> set debug_family \<and> obj_get bare_inspect_argv ''inspect'' = Bool True"
    by (simp add: bare_inspect_argv_def obj_get_def debug_family_def)
  have n: "\<not> (\<exists>k \<in> set (Object_keys bare_inspect_argv).
             k \<in> set debug_family \<and> is_number (obj_get bare_inspect_argv k))"
    by (simp add: bare_inspect_argv_def obj_get_def Object_keys_def)
  from extractExecArgv_undefined_and_port [of bare_inspect_argv] u b n show ?thesis
    by blast
qed

section \<open>Context derivation\<close>

lemma cleared_unset: "cleared k a \<Longrightarrow> cleared k (obj_set a k' Undefined)"
  by (simp add: cleared_def keys_obj_set obj_get_set)

lemma cleared_clear_global:
  "cleared ''help'' (clear_global a)" "cleared ''h'' (clear_global a)"
  "cleared ''version'' (clear_global a)" "cleared ''v'' (clear_global a)"
  by (simp_all add: clear_global_def cleared_def keys_obj_set obj_get_set)

lemma cleared_fold_unset:
  "cleared k a \<Longrightarrow> cleared k (fold (\<lambda>item a'. obj_set a' item Undefined) items a)"
  by (induction items arbitrary: a) (simp_all add: cleared_unset)

lemma cleared_remove_alias_aux:
  "cleared k a \<Longrightarrow>
   cleared k (fold (\<lambda>key a. case map_of aliases key of None \<Rightarrow> a
                 | Some items \<Rightarrow> fold (\<lambda>item a'. obj_set a' item Undefined) items a) ks a)"
  by (induction ks arbitrary: a) (auto simp: cleared_fold_unset split: option.splits)

lemma cleared_remove_alias: "cleared k a \<Longrightarrow> cleared k (remove_alias aliases a)"
  unfolding remove_alias_def by (rule cleared_remove_alias_aux)

lemma cleared_remove_camel_aux:
  "cleared k a \<Longrightarrow>
   cleared k (fold (\<lambda>key a. if CHR ''-'' \<in> set key
                             then obj_set a (h_camel h key) Undefined else a) ks a)"
  by (induction ks arbitrary: a) (simp_all add: cleared_unset)

lemma cleared_remove_camel: "cleared k a \<Longrightarrow> cleared k (remove_camel h a)"
  unfolding remove_camel_def by (rule cleared_remove_camel_aux)

lemma cleared_remove_exec_aux:
  "cleared k a \<Longrightarrow>
   cleared k (fold (\<lambda>key a. obj_set (obj_set a key Undefined) (h_camel h key) Undefined) ks a)"
  by (induction ks arbitrary: a) (simp_all add: cleared_unset)

lemma cleared_remove_exec: "cleared k a \<Longrightarrow> cleared k (remove_exec h eobj a)"
  unfolding remove_exec_def by (rule cleared_remove_exec_aux)

lemma cleared_clean_argv:
  "cleared k (clear_global argv) \<Longrightarrow> cleared k (clean_argv po aliases h argv)"
  by (simp add: clean_argv_def Let_def cleared_remove_alias cleared_remove_camel)

lemma ctx_argv_build_context:
  "ctx_argv (build_context po aliases h raw argv) =
     (if execArgv po
      then remove_exec h (execArgvObj (merge_exec h (clean_argv po aliases h argv)))
             (clean_argv po aliases h argv)
      else clean_argv po aliases h argv)"
  by (simp add: build_context_def Let_def)

lemma cleared_build_context:
  "cleared k (clear_global argv) \<Longrightarrow> cleared k (ctx_argv (build_context po aliases h raw argv))"
  by (simp add: ctx_argv_build_context cleared_clean_argv cleared_remove_exec)

lemma get_context_construct:
  "fst (get_context h (construct lib h cls given)) =
     build_context (c_parserOptions cls) (y_alias (lib cls)) h
       (rawArgv (construct lib h cls given))
       (y_argv (lib cls) (rawArgv (construct lib h cls given)))"
  by (simp add: get_context_def construct_def Let_def)

text \<open>
  C2. Whatever the parsed argv, the parser options, the alias table and the environment,
  the argv of the derived context holds \<open>help\<close>, \<open>h\<close>, \<open>version\<close> and \<open>v\<close> as keys whose
  value is undefined: the keys were assigned undefined, and no later step of the
  derivation gives them a value. This holds for the derivation itself and for the
  context that the getter of a newly constructed node returns.
\<close>

theorem context_clears_help_version:
  "cleared ''help'' (ctx_argv (build_context po aliases h raw argv))
   \<and> cleared ''h'' (ctx_argv (build_context po aliases h raw argv))
   \<and> cleared ''version'' (ctx_argv (build_context po aliases h raw argv))
   \<and> cleared ''v'' (ctx_argv (build_context po aliases h raw argv))
   \<and> cleared ''help'' (ctx_argv (fst (get_context h (construct lib h cls given))))
   \<and> cleared ''h'' (ctx_argv (fst (get_context h (construct lib h cls given))))
   \<and> cleared ''version'' (ctx_argv (fst (get_context h (construct lib h cls given))))
   \<and> cleared ''v'' (ctx_argv (fst (get_context h (construct lib h cls given))))"
  by (simp add: get_context_construct cleared_build_context cleared_clear_global)

lemma assign_get_aux:
  "obj_get (fold (\<lambda>k t. obj_set t k (obj_get src k)) ks t) k' =
     (if k' \<in> set ks then obj_get src k' else obj_get t k')"
  by (induction ks arbitrary: t) (auto simp: obj_get_set)

lemma Object_assign_get:
  "obj_get (Object_assign t src) k =
     (if k \<in> set (Object_keys src) then obj_get src k else obj_get t k)"
  by (simp add: Object_assign_def assign_get_aux)

lemma assign_keys_aux:
  "set (Object_keys (fold (\<lambda>k t. obj_set t k (obj_get src k)) ks t)) =
     set (Object_keys t) \<union> set ks"
  by (induction ks arbitrary: t) (auto simp: keys_obj_set)

lemma Object_assign_keys:
  "set (Object_keys (Object_assign t src)) = set (Object_keys t) \<union> set (Object_keys src)"
  by (simp add: Object_assign_def assign_keys_aux)

lemma merge_exec_env:
  assumes "map_of (h_env h) ''NODE_DEBUG_OPTION'' = Some s" "s \<noteq> []"
  shows "merge_exec h a =
     \<lparr> debugPort = js_or (debugPort (extractExecArgv (h_parser h s)))
                         (debugPort (extractExecArgv a)),
       debugOptions = Object_assign (debugOptions (extractExecArgv a))
                        (debugOptions (extractExecArgv (h_parser h s))),
       execArgvObj = Object_assign (execArgvObj (extractExecArgv a))
                       (execArgvObj (extractExecArgv (h_parser h s))) \<rparr>"
  using assms by (simp add: merge_exec_def Let_def)

text \<open>
  C6, as the claim states it, fails: with \<open>--debug-port=5000\<close> on the command line and
  \<open>--debug-port=6000\<close> in \<open>$NODE_DEBUG_OPTION\<close>, argv did set a port (5000), and the
  context's \<open>debugPort\<close> is nevertheless the environment's 6000.
\<close>

theorem env_port_replaces_argv_port:
  "debugPort (extractExecArgv (clean_argv default_parserOptions global_aliases debug_env_host debug_argv))
     = Num 5000
   \<and> ctx_debugPort (build_context default_parserOptions global_aliases debug_env_host
        [''--debug-port=5000'', ''--expose_debug_as=v8debug''] debug_argv) = Some (Num 6000)"
  by (simp add: build_context_def merge_exec_def clean_argv_def clear_global_def remove_alias_def
      extractExecArgv_def extract_step_def default_parserOptions_def global_aliases_def
      debug_env_host_def debug_argv_def demo_parser_def obj_get_def obj_set_def Object_keys_def
      Object_assign_def debug_family_def match_def exec_patterns_def js_or_def Let_def)

text \<open>
  C6, amended. When \<open>$NODE_DEBUG_OPTION\<close> is set to a non-empty string and exec-argv
  extraction is enabled, every key that the extraction finds in the environment has the
  environment's value in the context's \<open>execArgvObj\<close>, whatever argv gave for it; and the
  context's \<open>debugPort\<close> is the environment's port whenever that is a number other than 0,
  the port of argv being kept only otherwise.
\<close>

theorem env_wins_exec_argv_and_port:
  assumes env: "map_of (h_env h) ''NODE_DEBUG_OPTION'' = Some s" "s \<noteq> []"
      and on: "execArgv po"
      and key: "k \<in> set (Object_keys (execArgvObj (extractExecArgv (h_parser h s))))"
  shows "(\<exists>m. ctx_execArgvObj (build_context po aliases h raw argv) = Some m
            \<and> obj_get m k = obj_get (execArgvObj (extractExecArgv (h_parser h s))) k)
       \<and> ctx_debugPort (build_context po aliases h raw argv) =
           Some (if truthy (debugPort (extractExecArgv (h_parser h s)))
                 then debugPort (extractExecArgv (h_parser h s))
                 else debugPort (extractExecArgv (clean_argv po aliases h argv)))"
proof -
  let ?a = "clean_argv po aliases h argv"
  let ?e = "extractExecArgv (h_parser h s)"
  have m: "execArgvObj (merge_exec h ?a) =
             Object_assign (execArgvObj (extractExecArgv ?a)) (execArgvObj ?e)"
    by (simp add: merge_exec_env [OF env])
  have "k \<in> set (Object_keys (execArgvObj (merge_exec h ?a)))"
    using key by (simp add: m Object_assign_keys)
  then have ne: "Object_keys (execArgvObj (merge_exec h ?a)) \<noteq> []" by auto
  have obj: "ctx_execArgvObj (build_context po aliases h raw argv) =
               Some (execArgvObj (merge_exec h ?a))"
    using on ne by (simp add: build_context_def Let_def)
  have first: "\<exists>m. ctx_execArgvObj (build_context po aliases h raw argv) = Some m
            \<and> obj_get m k = obj_get (execArgvObj ?e) k"
    using key by (simp add: obj m Object_assign_get)
  have "ctx_debugPort (build_context po aliases h raw argv) =
          Some (debugPort (merge_exec h ?a))"
    using on ne by (simp add: build_context_def Let_def)
  then have second: "ctx_debugPort (build_context po aliases h raw argv) =
           Some (if truthy (debugPort ?e) then debugPort ?e else debugPort (extractExecArgv ?a))"
    by (simp add: merge_exec_env [OF env] js_or_def)
  from first second show ?thesis by blast
qed

theorem env_wins_exec_argv_and_port_witness:
  "(\<exists>m. ctx_execArgvObj (build_context default_parserOptions global_aliases debug_env_host
            [''--debug-port=5000'', ''--expose_debug_as=v8debug''] debug_argv) = Some m
        \<and> obj_get m ''expose_debug_as'' = Str ''dbg'')
   \<and> ctx_debugPort (build_context default_parserOptions global_aliases debug_env_host
        [''--debug-port=5000'', ''--expose_debug_as=v8debug''] debug_argv) = Some (Num 6000)"
proof -
  have env: "map_of (h_env debug_env_host) ''NODE_DEBUG_OPTION''
               = Some ''--debug-port=6000 --expose_debug_as=dbg''"
    by (simp add: debug_env_host_def)
  have ne: "''--debug-port=6000 --expose_debug_as=dbg'' \<noteq> []" by simp
  have on: "execArgv default_parserOptions" by (simp add: default_parserOptions_def)
  have ex: "extractExecArgv (h_parser debug_env_host ''--debug-port=6000 --expose_debug_as=dbg'')
      = \<lparr> debugPort = Num 6000, debugOptions = [(''debug-port'', Num 6000)],
          execArgvObj = [(''debug-port'', Num 6000), (''expose_debug_as'', Str ''dbg'')] \<rparr>"
    by (simp add: debug_env_host_def demo_parser_def extractExecArgv_def extract_step_def
        obj_get_def obj_set_def Object_keys_def debug_family_def match_def exec_patterns_def
        Let_def)
  have key: "''expose_debug_as'' \<in> set (Object_keys (execArgvObj (extractExecArgv
       (h_parser debug_env_host ''--debug-port=6000 --expose_debug_as=dbg''))))"
    by (simp add: ex Object_keys_def)
  from env_wins_exec_argv_and_port [OF env ne on key, of global_aliases
      "[''--debug-port=5000'', ''--expose_debug_as=v8debug'']" debug_argv]
  show ?thesis by (simp add: ex obj_get_def)
qed

section \<open>Start and dispatch\<close>

declare DISPATCH.simps [simp del]

text \<open>
  The branch of the dispatcher for a registered first positional token: the result is
  the result of the dispatcher of a new node of the registered class, constructed with
  the reduced vector. The node's own \<open>run\<close> is not called: \<open>run_self\<close> does not occur.
\<close>

lemma dispatch_delegates:
  assumes "y_parse (n_yargs n) (rawArgv n) = Inr parsed"
      and "first_positional (obj_get parsed ''_'') = Inr (Str name)"
      and "\<not> version_requested parsed n"
      and "map_of (COMMANDS n) name = Some Command"
  shows "DISPATCH lib h n =
     (fst (DISPATCH lib h (construct lib h Command (Some (reduced_argv (rawArgv n) name)))), n)"
  using assms by (subst DISPATCH.simps) simp

lemma dispatch_runs_self:
  assumes "y_parse (n_yargs n) (rawArgv n) = Inr parsed"
      and "first_positional (obj_get parsed ''_'') = Inr commandName"
      and "\<not> version_requested parsed n"
      and "\<And>name. commandName = Str name \<Longrightarrow> map_of (COMMANDS n) name = None"
  shows "DISPATCH lib h n = run_self h n"
  using assms by (subst DISPATCH.simps) (simp split: js_value.splits)

lemma dispatch_version:
  assumes "y_parse (n_yargs n) (rawArgv n) = Inr parsed"
      and "first_positional (obj_get parsed ''_'') = Inr commandName"
      and "version_requested parsed n"
  shows "DISPATCH lib h n = (PrintedVersion (the (VERSION n)), n)"
  using assms by (subst DISPATCH.simps) simp

lemma rawArgv_get_context: "rawArgv (snd (get_context h n)) = rawArgv n"
  by (simp add: get_context_def Let_def split: option.splits)

lemma rawArgv_run_self: "rawArgv (snd (run_self h n)) = rawArgv n"
proof (cases "get_context h n")
  case (Pair ctx n')
  with rawArgv_get_context [of h n] have "rawArgv n' = rawArgv n" by simp
  with Pair show ?thesis by (simp add: run_self_def)
qed

lemma rawArgv_DISPATCH: "rawArgv (snd (DISPATCH lib h n)) = rawArgv n"
  by (subst DISPATCH.simps)
     (simp add: rawArgv_run_self split: sum.splits js_value.splits option.splits)

lemma rawArgv_start_node: "rawArgv (start_node n) = start_argv (rawArgv n)"
  by (simp add: start_node_def start_argv_def Let_def)

lemma rawArgv_start: "rawArgv (snd (start lib h n)) = start_argv (rawArgv n)"
proof -
  have "rawArgv (snd (DISPATCH lib h (start_node n))) = start_argv (rawArgv n)"
    by (simp add: rawArgv_DISPATCH rawArgv_start_node)
  then show ?thesis
    by (cases "DISPATCH lib h (start_node n)")
       (simp add: start_def Let_def split: outcome.splits)
qed

lemma indexOf_absent: "x \<notin> set xs \<Longrightarrow> indexOf xs x = - 1"
  by (induction xs) (auto simp: Let_def)

lemma indexOf_append: "x \<notin> set xs \<Longrightarrow> indexOf (xs @ x # ys) x = int (length xs)"
  by (induction xs) (auto simp: Let_def)

lemma start_argv_unmarked:
  "''--get-yargs-completions'' \<notin> set raw \<Longrightarrow> start_argv raw = raw"
  by (simp add: start_argv_def indexOf_absent)

lemma reduced_argv_first:
  "t \<notin> set xs \<Longrightarrow> reduced_argv (xs @ t # ys) t = xs @ ys"
  by (simp add: reduced_argv_def indexOf_append js_splice_def Let_def)

text \<open>
  When the token occurs in the vector, the reduced vector is the vector without the
  first occurrence of the token: one element fewer, everything else in place.
\<close>

lemma reduced_argv_remove1: "t \<in> set raw \<Longrightarrow> reduced_argv raw t = remove1 t raw"
proof -
  assume "t \<in> set raw"
  then obtain xs ys where "raw = xs @ t # ys" "t \<notin> set xs"
    by (meson split_list_first)
  then show ?thesis by (simp add: reduced_argv_first remove1_append)
qed

text \<open>
  The context that reaches a \<open>run\<close> through dispatch, from a node with no context yet,
  is a derived one, so the four global keys are cleared in it.
\<close>

lemma run_self_context:
  assumes "CONTEXT n = None" "fst (run_self h n) = RunCalled nm ctx"
  shows "ctx = build_context (parserOptions n) (y_alias (n_yargs n)) h (rawArgv n)
                 (y_argv (n_yargs n) (rawArgv n))"
  using assms by (simp add: run_self_def get_context_def Let_def split: if_splits)

lemma dispatch_run_context:
  "CONTEXT n = None \<Longrightarrow> fst (DISPATCH lib h n) = RunCalled nm ctx \<Longrightarrow>
   \<exists>po al raw argv. ctx = build_context po al h raw argv"
proof (induction lib h n rule: DISPATCH.induct)
  case (1 lib h n)
  show ?case
  proof (cases "y_parse (n_yargs n) (rawArgv n)")
    case (Inl e)
    with "1.prems" show ?thesis by (subst (asm) DISPATCH.simps) simp
  next
    case (Inr parsed)
    show ?thesis
    proof (cases "first_positional (obj_get parsed ''_'')")
      case (Inl e)
      with Inr "1.prems" show ?thesis by (subst (asm) DISPATCH.simps) simp
    next
      case p: (Inr commandName)
      show ?thesis
      proof (cases "version_requested parsed n")
        case True
        with Inr p "1.prems" show ?thesis by (simp add: dispatch_version)
      next
        case nv: False
        show ?thesis
        proof (cases "\<exists>name Command. commandName = Str name \<and> map_of (COMMANDS n) name = Some Command")
          case True
          then obtain name Command where c: "commandName = Str name" "map_of (COMMANDS n) name = Some Command"
            by blast
          let ?child = "construct lib h Command (Some (reduced_argv (rawArgv n) name))"
          have d: "DISPATCH lib h n = (fst (DISPATCH lib h ?child), n)"
            using Inr p nv c by (simp add: dispatch_delegates)
          have fresh: "CONTEXT ?child = None" by (simp add: construct_def)
          from "1.prems"(2) d have "fst (DISPATCH lib h ?child) = RunCalled nm ctx" by simp
          from "1.IH" [OF Inr p nv c(1) c(2) fresh this] show ?thesis .
        next
          case False
          then have "DISPATCH lib h n = run_self h n"
            using Inr p nv by (intro dispatch_runs_self [where parsed = parsed and commandName = commandName]) auto
          with "1.prems" run_self_context [of n h nm ctx] show ?thesis by auto
        qed
      qed
    qed
  qed
qed

lemma dispatch_run_context_cleared:
  assumes "CONTEXT n = None" "fst (DISPATCH lib h n) = RunCalled nm ctx"
  shows "cleared ''help'' (ctx_argv ctx) \<and> cleared ''h'' (ctx_argv ctx)
       \<and> cleared ''version'' (ctx_argv ctx) \<and> cleared ''v'' (ctx_argv ctx)"
proof -
  from dispatch_run_context [OF assms] obtain po al raw argv
    where "ctx = build_context po al h raw argv" by blast
  then show ?thesis by (simp add: cleared_build_context cleared_clear_global)
qed

text \<open>
  C1 at the vector \<open>--env deploy --verbose=1 deploy\<close>, with \<open>deploy\<close> registered. The
  parser gives \<open>env\<close> the value \<open>deploy\<close> and reads the last token as the first
  positional, so the last token names the command. The dispatcher removes the first
  occurrence of the string, which is the value of \<open>env\<close>: the subcommand is constructed
  with \<open>--env --verbose=1 deploy\<close>, and its \<open>run\<close> receives \<open>env\<close> as true and the command
  token as a positional.
\<close>

theorem dispatch_removes_flag_value_at_input:
  "reduced_argv [''--env'', ''deploy'', ''--verbose=1'', ''deploy''] ''deploy''
     = [''--env'', ''--verbose=1'', ''deploy'']
   \<and> fst (DISPATCH demo_lib plain_host (main_node [''--env'', ''deploy'', ''--verbose=1'', ''deploy'']))
     = RunCalled ''DeployCommand''
         \<lparr> ctx_argv = [(''_'', Arr [Str ''deploy'']), (''env'', Bool True), (''verbose'', Num 1),
                       (''help'', Undefined), (''h'', Undefined), (''version'', Undefined),
                       (''v'', Undefined)],
           ctx_cwd = ''/work'', ctx_env = [],
           ctx_rawArgv = [''--env'', ''--verbose=1'', ''deploy''],
           ctx_execArgv = None, ctx_execArgvObj = None, ctx_debugOptions = None,
           ctx_debugPort = None \<rparr>"
proof -
  let ?v = "[''--env'', ''deploy'', ''--verbose=1'', ''deploy'']"
  let ?r = "[''--env'', ''--verbose=1'', ''deploy'']"
  have red: "reduced_argv ?v ''deploy'' = ?r"
    by (simp add: reduced_argv_def js_splice_def Let_def)
  have parent: "DISPATCH demo_lib plain_host (main_node ?v) =
      (fst (DISPATCH demo_lib plain_host (construct demo_lib plain_host deploy_class
         (Some (reduced_argv (rawArgv (main_node ?v)) ''deploy'')))), main_node ?v)"
    by (rule dispatch_delegates [where parsed =
          "[(''_'', Arr [Str ''deploy'']), (''env'', Str ''deploy''), (''verbose'', Num 1)]"])
       (simp_all add: main_node_def construct_def demo_lib_def demo_yargs_def demo_parse_def
          main_class_def obj_get_def version_requested_def)
  have raw: "rawArgv (main_node ?v) = ?v" by (simp add: main_node_def construct_def)
  let ?c = "construct demo_lib plain_host deploy_class (Some ?r)"
  have child: "DISPATCH demo_lib plain_host ?c = run_self plain_host ?c"
    by (rule dispatch_runs_self [where parsed =
          "[(''_'', Arr [Str ''deploy'']), (''env'', Bool True), (''verbose'', Num 1)]"
          and commandName = "Str ''deploy''"])
       (simp_all add: construct_def demo_lib_def demo_yargs_def demo_parse_def
          deploy_class_def obj_get_def version_requested_def)
  have self: "fst (run_self plain_host ?c) = RunCalled ''DeployCommand''
         \<lparr> ctx_argv = [(''_'', Arr [Str ''deploy'']), (''env'', Bool True), (''verbose'', Num 1),
                       (''help'', Undefined), (''h'', Undefined), (''version'', Undefined),
                       (''v'', Undefined)],
           ctx_cwd = ''/work'', ctx_env = [],
           ctx_rawArgv = ?r,
           ctx_execArgv = None, ctx_execArgvObj = None, ctx_debugOptions = None,
           ctx_debugPort = None \<rparr>"
    by (simp add: run_self_def get_context_def construct_def demo_lib_def demo_yargs_def
        demo_parse_def deploy_class_def build_context_def clean_argv_def clear_global_def
        remove_alias_def global_aliases_def merge_exec_def remove_exec_def extractExecArgv_def
        extract_step_def plain_host_def default_parserOptions_def obj_get_def obj_set_def
        Object_keys_def debug_family_def match_def exec_patterns_def Let_def)
  from red parent raw child self show ?thesis by simp
qed

section \<open>Registry\<close>

text \<open>
  C7, as the claim states it, fails: \<open>add\<close> has no test for a name that is already
  registered. Registering \<open>deploy\<close> a second time, with another class, succeeds and the
  name then maps to the second class.
\<close>

theorem second_registration_replaces:
  "add demo_loader ''deploy'' (Class deploy_class) (main_node [])
     = Inr ((main_node [])\<lparr> COMMANDS := [(''deploy'', deploy_class)] \<rparr>)
   \<and> add demo_loader ''deploy'' (Class rollout_class)
         ((main_node [])\<lparr> COMMANDS := [(''deploy'', deploy_class)] \<rparr>)
     = Inr ((main_node [])\<lparr> COMMANDS := [(''deploy'', rollout_class)] \<rparr>)
   \<and> deploy_class \<noteq> rollout_class"
  by (simp add: add_def resolve_target_def deploy_class_def rollout_class_def main_node_def
      construct_def main_class_def)

text \<open>An alias for a registered name, with a non-empty alias name, is always accepted.\<close>

lemma alias_command_ok:
  "al \<noteq> [] \<Longrightarrow> map_of (COMMANDS n) name = Some cls \<Longrightarrow>
   alias_command al name n = Inr (n\<lparr> COMMANDS := AList.update al cls (COMMANDS n) \<rparr>)"
  by (simp add: alias_command_def)

text \<open>
  C7, amended. For every registry, a registration with a non-empty name and a target
  that resolves to a command class succeeds, whether or not the name was registered
  before; afterwards the name maps to that class (the last registration wins), and the
  registry still holds every name once.
\<close>

theorem add_registers_last_target:
  assumes "name \<noteq> []" and "resolve_target ld t = Inr cls"
  shows "\<exists>n'. add ld name t n = Inr n'
           \<and> map_of (COMMANDS n') name = Some cls
           \<and> (distinct (map fst (COMMANDS n)) \<longrightarrow> distinct (map fst (COMMANDS n')))"
proof (cases "c_alias cls")
  case None
  with assms show ?thesis
    by (simp add: add_def Let_def update_conv' distinct_update)
next
  case (Some a)
  show ?thesis
  proof (cases "a = []")
    case True
    with Some assms show ?thesis
      by (simp add: add_def Let_def update_conv' distinct_update)
  next
    case False
    let ?n = "n\<lparr> COMMANDS := AList.update name cls (COMMANDS n) \<rparr>"
    have "map_of (COMMANDS ?n) name = Some cls" by (simp add: update_conv')
    from alias_command_ok [OF False this]
    have "alias_command a name ?n = Inr (?n\<lparr> COMMANDS := AList.update a cls (COMMANDS ?n) \<rparr>)" .
    with Some False assms show ?thesis
      by (simp add: add_def Let_def update_conv' distinct_update)
  qed
qed

theorem add_registers_last_target_witness:
  "\<exists>n'. add demo_loader ''deploy'' (Class rollout_class) (main_node []) = Inr n'
        \<and> map_of (COMMANDS n') ''deploy'' = Some rollout_class
        \<and> distinct (map fst (COMMANDS n'))"
proof -
  have a: "''deploy'' \<noteq> []" by simp
  have b: "resolve_target demo_loader (Class rollout_class) = Inr rollout_class"
    by (simp add: resolve_target_def)
  have c: "distinct (map fst (COMMANDS (main_node [])))"
    by (simp add: main_node_def construct_def main_class_def)
  from add_registers_last_target [OF a b, of "main_node []"] c show ?thesis by blast
qed

section \<open>The raw argument vector\<close>

text \<open>
  C8, as the claim states it, fails for \<open>start\<close>: when the vector holds
  \<open>--get-yargs-completions\<close>, \<open>start\<close> splices \<open>this.rawArgv\<close> itself, without a copy.
\<close>

theorem start_rewrites_rawArgv:
  "rawArgv (main_node [''--get-yargs-completions'', ''reco'', ''de''])
     = [''--get-yargs-completions'', ''reco'', ''de'']
   \<and> rawArgv (snd (start demo_lib plain_host (main_node [''--get-yargs-completions'', ''reco'', ''de''])))
     = [''--AUTO_COMPLETIONS=--get-yargs-completions,reco,de'', ''de'']"
  by (simp add: rawArgv_start main_node_def construct_def start_argv_def js_splice_def Let_def)

lemma start_argv_marked:
  assumes "''--get-yargs-completions'' \<notin> set xs"
  shows "start_argv (xs @ ''--get-yargs-completions'' # ys) =
           xs @ [''--AUTO_COMPLETIONS='' @ join '','' (xs @ ''--get-yargs-completions'' # ys)] @ drop 1 ys"
  using assms by (cases ys) (simp_all add: start_argv_def indexOf_append js_splice_def Let_def)

text \<open>
  C8, amended. Construction keeps the vector it is given; dispatch (which splices a
  copy) and context derivation leave the node's \<open>rawArgv\<close> as it was; \<open>start\<close> leaves it
  as it was when it does not hold \<open>--get-yargs-completions\<close>, and otherwise replaces the
  first such token and the token after it by one \<open>--AUTO_COMPLETIONS=\<close> token that lists
  the vector as it was.
\<close>

theorem rawArgv_only_rewritten_by_start:
  "rawArgv (construct lib h cls (Some v)) = v
   \<and> rawArgv (snd (DISPATCH lib h n)) = rawArgv n
   \<and> rawArgv (snd (get_context h n)) = rawArgv n
   \<and> rawArgv (snd (start lib h n)) = start_argv (rawArgv n)
   \<and> (''--get-yargs-completions'' \<notin> set (rawArgv n) \<longrightarrow>
        rawArgv (snd (start lib h n)) = rawArgv n)
   \<and> (\<forall>xs ys. ''--get-yargs-completions'' \<notin> set xs \<and>
          rawArgv n = xs @ ''--get-yargs-completions'' # ys \<longrightarrow>
        rawArgv (snd (start lib h n)) =
          xs @ [''--AUTO_COMPLETIONS='' @ join '','' (rawArgv n)] @ drop 1 ys)"
  by (simp add: rawArgv_DISPATCH rawArgv_get_context rawArgv_start start_argv_unmarked
      start_argv_marked construct_def)

theorem rawArgv_only_rewritten_by_start_witness:
  "rawArgv (snd (DISPATCH demo_lib plain_host (main_node [''deploy'', ''--env=prod''])))
     = [''deploy'', ''--env=prod'']
   \<and> rawArgv (snd (get_context plain_host (main_node [''deploy'', ''--env=prod''])))
     = [''deploy'', ''--env=prod'']
   \<and> rawArgv (snd (start demo_lib plain_host (main_node [''deploy'', ''--env=prod''])))
     = [''deploy'', ''--env=prod'']"
proof -
  have raw: "rawArgv (main_node [''deploy'', ''--env=prod'']) = [''deploy'', ''--env=prod'']"
    by (simp add: main_node_def construct_def)
  have un: "''--get-yargs-completions'' \<notin> set (rawArgv (main_node [''deploy'', ''--env=prod'']))"
    by (simp add: raw)
  note all = rawArgv_only_rewritten_by_start [of demo_lib plain_host main_class "[]"
      "main_node [''deploy'', ''--env=prod'']"]
  from all have d: "rawArgv (snd (DISPATCH demo_lib plain_host (main_node [''deploy'', ''--env=prod''])))
      = rawArgv (main_node [''deploy'', ''--env=prod''])" by blast
  from all have g: "rawArgv (snd (get_context plain_host (main_node [''deploy'', ''--env=prod''])))
      = rawArgv (main_node [''deploy'', ''--env=prod''])" by blast
  from all un have s: "rawArgv (snd (start demo_lib plain_host (main_node [''deploy'', ''--env=prod''])))
      = rawArgv (main_node [''deploy'', ''--env=prod''])" by blast
  from d g s show ?thesis by (simp only: raw)
qed

section \<open>Aliases\<close>

lemma dispatch_same_class:
  assumes pa: "y_parse (n_yargs n) va = Inr pa" "first_positional (obj_get pa ''_'') = Inr (Str a)"
      and pb: "y_parse (n_yargs n) vb = Inr pb" "first_positional (obj_get pb ''_'') = Inr (Str b)"
      and ver: "truthy (obj_get pa ''version'') = truthy (obj_get pb ''version'')"
      and cls: "map_of (COMMANDS n) a = Some cls" "map_of (COMMANDS n) b = Some cls"
      and red: "reduced_argv va a = reduced_argv vb b"
  shows "fst (DISPATCH lib h (n\<lparr> rawArgv := va \<rparr>)) = fst (DISPATCH lib h (n\<lparr> rawArgv := vb \<rparr>))"
proof (cases "version_requested pa n")
  case True
  then have "version_requested pb n" using ver by (simp add: version_requested_def)
  with True pa pb show ?thesis
    by (simp add: dispatch_version [where parsed = pa and commandName = "Str a"]
        dispatch_version [where parsed = pb and commandName = "Str b"] version_requested_def)
next
  case False
  then have nb: "\<not> version_requested pb n" using ver by (simp add: version_requested_def)
  have da: "DISPATCH lib h (n\<lparr> rawArgv := va \<rparr>) =
     (fst (DISPATCH lib h (construct lib h cls (Some (reduced_argv va a)))), n\<lparr> rawArgv := va \<rparr>)"
    using dispatch_delegates [of "n\<lparr> rawArgv := va \<rparr>" pa a cls lib h] pa cls False
    by (simp add: version_requested_def)
  have db: "DISPATCH lib h (n\<lparr> rawArgv := vb \<rparr>) =
     (fst (DISPATCH lib h (construct lib h cls (Some (reduced_argv vb b)))), n\<lparr> rawArgv := vb \<rparr>)"
    using dispatch_delegates [of "n\<lparr> rawArgv := vb \<rparr>" pb b cls lib h] pb cls nb
    by (simp add: version_requested_def)
  show ?thesis by (simp add: da db red)
qed

text \<open>
  What holds of aliases. An alias for a name that is not registered is refused: \<open>alias\<close>
  fails, and for a non-empty alias name the failure is the assertion
  \<open>name should be added first\<close>. Once the name is registered, a non-empty alias is
  accepted and maps to the same class as the name. Dispatch treats the two alike as long
  as the command token is the first token of the vector equal to it: for two vectors
  that differ only in the command token (the alias in one, the name in the other,
  neither occurring before it), which the parser reads with that token as first
  positional and with the same answer for the version flag, the two dispatches have the
  same result.
\<close>

lemma alias_needs_target_and_dispatches_alike:
  "(map_of (COMMANDS n) name = None \<longrightarrow>
      (\<exists>e. alias_command al name n = Inl e) \<and>
      (al \<noteq> [] \<longrightarrow> alias_command al name n = Inl (AssertionError (name @ '' should be added first''))))
   \<and> (al \<noteq> [] \<and> map_of (COMMANDS n) name = Some cls \<longrightarrow>
      (\<exists>n'. alias_command al name n = Inr n'
         \<and> map_of (COMMANDS n') al = Some cls \<and> map_of (COMMANDS n') name = Some cls
         \<and> (\<forall>lib h xs ys pa pn.
               al \<notin> set xs \<and> name \<notin> set xs
               \<and> y_parse (n_yargs n') (xs @ al # ys) = Inr pa
               \<and> first_positional (obj_get pa ''_'') = Inr (Str al)
               \<and> y_parse (n_yargs n') (xs @ name # ys) = Inr pn
               \<and> first_positional (obj_get pn ''_'') = Inr (Str name)
               \<and> truthy (obj_get pa ''version'') = truthy (obj_get pn ''version'')
               \<longrightarrow> fst (DISPATCH lib h (n'\<lparr> rawArgv := xs @ al # ys \<rparr>))
                   = fst (DISPATCH lib h (n'\<lparr> rawArgv := xs @ name # ys \<rparr>)))))"
proof (intro conjI impI)
  assume "map_of (COMMANDS n) name = None"
  then show "\<exists>e. alias_command al name n = Inl e" by (simp add: alias_command_def)
next
  assume "map_of (COMMANDS n) name = None" "al \<noteq> []"
  then show "alias_command al name n = Inl (AssertionError (name @ '' should be added first''))"
    by (simp add: alias_command_def)
next
  assume a: "al \<noteq> [] \<and> map_of (COMMANDS n) name = Some cls"
  let ?n = "n\<lparr> COMMANDS := AList.update al cls (COMMANDS n) \<rparr>"
  have ok: "alias_command al name n = Inr ?n" using a by (simp add: alias_command_ok)
  have la: "map_of (COMMANDS ?n) al = Some cls" by (simp add: update_conv')
  have ln: "map_of (COMMANDS ?n) name = Some cls" using a by (simp add: update_conv')
  have disp: "fst (DISPATCH lib h (?n\<lparr> rawArgv := xs @ al # ys \<rparr>))
        = fst (DISPATCH lib h (?n\<lparr> rawArgv := xs @ name # ys \<rparr>))"
    if "al \<notin> set xs \<and> name \<notin> set xs
               \<and> y_parse (n_yargs ?n) (xs @ al # ys) = Inr pa
               \<and> first_positional (obj_get pa ''_'') = Inr (Str al)
               \<and> y_parse (n_yargs ?n) (xs @ name # ys) = Inr pn
               \<and> first_positional (obj_get pn ''_'') = Inr (Str name)
               \<and> truthy (obj_get pa ''version'') = truthy (obj_get pn ''version'')"
    for lib h xs ys pa pn
  proof -
    from that have red: "reduced_argv (xs @ al # ys) al = reduced_argv (xs @ name # ys) name"
      by (simp add: reduced_argv_first)
    from that have p1: "y_parse (n_yargs ?n) (xs @ al # ys) = Inr pa"
      and p2: "first_positional (obj_get pa ''_'') = Inr (Str al)"
      and p3: "y_parse (n_yargs ?n) (xs @ name # ys) = Inr pn"
      and p4: "first_positional (obj_get pn ''_'') = Inr (Str name)"
      and p5: "truthy (obj_get pa ''version'') = truthy (obj_get pn ''version'')"
      by blast+
    show ?thesis
      by (rule dispatch_same_class [OF p1 p2 p3 p4 p5 la ln red])
  qed
  from ok la ln disp
  show "\<exists>n'. alias_command al name n = Inr n'
         \<and> map_of (COMMANDS n') al = Some cls \<and> map_of (COMMANDS n') name = Some cls
         \<and> (\<forall>lib h xs ys pa pn.
               al \<notin> set xs \<and> name \<notin> set xs
               \<and> y_parse (n_yargs n') (xs @ al # ys) = Inr pa
               \<and> first_positional (obj_get pa ''_'') = Inr (Str al)
               \<and> y_parse (n_yargs n') (xs @ name # ys) = Inr pn
               \<and> first_positional (obj_get pn ''_'') = Inr (Str name)
               \<and> truthy (obj_get pa ''version'') = truthy (obj_get pn ''version'')
               \<longrightarrow> fst (DISPATCH lib h (n'\<lparr> rawArgv := xs @ al # ys \<rparr>))
                   = fst (DISPATCH lib h (n'\<lparr> rawArgv := xs @ name # ys \<rparr>)))"
    by blast
qed


lemma alias_needs_target_and_dispatches_alike_instance:
  "alias_command ''d'' ''rollout'' (main_node []) = Inl (AssertionError ''rollout should be added first'')
   \<and> (\<exists>n'. alias_command ''d'' ''deploy'' (main_node []) = Inr n'
         \<and> map_of (COMMANDS n') ''d'' = Some deploy_class
         \<and> fst (DISPATCH demo_lib plain_host (n'\<lparr> rawArgv := [''d'', ''--env=prod''] \<rparr>))
           = fst (DISPATCH demo_lib plain_host (n'\<lparr> rawArgv := [''deploy'', ''--env=prod''] \<rparr>)))"
proof -
  have cmds: "COMMANDS (main_node []) = [(''deploy'', deploy_class)]"
    by (simp add: main_node_def construct_def main_class_def)
  have none: "map_of (COMMANDS (main_node [])) ''rollout'' = None" by (simp add: cmds)
  have some: "''d'' \<noteq> [] \<and> map_of (COMMANDS (main_node [])) ''deploy'' = Some deploy_class"
    by (simp add: cmds)
  have ne: "''d'' \<noteq> []" by simp
  from alias_needs_target_and_dispatches_alike [of "main_node []" "''rollout''" "''d''" deploy_class]
    none ne
  have first: "alias_command ''d'' ''rollout'' (main_node [])
                 = Inl (AssertionError (''rollout'' @ '' should be added first''))"
    by blast
  from alias_needs_target_and_dispatches_alike [of "main_node []" "''deploy''" "''d''" deploy_class]
    some
  obtain n' where ok: "alias_command ''d'' ''deploy'' (main_node []) = Inr n'"
    and la: "map_of (COMMANDS n') ''d'' = Some deploy_class"
    and disp: "\<And>lib h xs ys pa pn.
               ''d'' \<notin> set xs \<and> ''deploy'' \<notin> set xs
               \<and> y_parse (n_yargs n') (xs @ ''d'' # ys) = Inr pa
               \<and> first_positional (obj_get pa ''_'') = Inr (Str ''d'')
               \<and> y_parse (n_yargs n') (xs @ ''deploy'' # ys) = Inr pn
               \<and> first_positional (obj_get pn ''_'') = Inr (Str ''deploy'')
               \<and> truthy (obj_get pa ''version'') = truthy (obj_get pn ''version'')
               \<Longrightarrow> fst (DISPATCH lib h (n'\<lparr> rawArgv := xs @ ''d'' # ys \<rparr>))
                   = fst (DISPATCH lib h (n'\<lparr> rawArgv := xs @ ''deploy'' # ys \<rparr>))"
    by blast
  from some have "alias_command ''d'' ''deploy'' (main_node []) =
      Inr ((main_node [])\<lparr> COMMANDS := AList.update ''d'' deploy_class (COMMANDS (main_node [])) \<rparr>)"
    by (simp add: alias_command_ok)
  with ok have "n' = (main_node [])\<lparr> COMMANDS := AList.update ''d'' deploy_class (COMMANDS (main_node [])) \<rparr>"
    by simp
  then have y: "n_yargs n' = demo_yargs"
    by (simp add: main_node_def construct_def demo_lib_def)
  have "fst (DISPATCH demo_lib plain_host (n'\<lparr> rawArgv := [] @ ''d'' # [''--env=prod''] \<rparr>))
      = fst (DISPATCH demo_lib plain_host (n'\<lparr> rawArgv := [] @ ''deploy'' # [''--env=prod''] \<rparr>))"
    by (rule disp [where pa = "[(''_'', Arr [Str ''d'']), (''env'', Str ''prod'')]"
          and pn = "[(''_'', Arr [Str ''deploy'']), (''env'', Str ''prod'')]"])
       (simp add: y demo_yargs_def demo_parse_def obj_get_def)
  with first ok la show ?thesis by simp
qed

text \<open>
  C9 at the vectors \<open>--env deploy --verbose=1 d\<close> and \<open>--env deploy --verbose=1 deploy\<close>,
  with \<open>d\<close> registered as an alias of \<open>deploy\<close>. In both the parser gives \<open>env\<close> the value
  \<open>deploy\<close> and reads the last token as the first positional. With the alias, the
  dispatcher removes the alias token and the subcommand runs on \<open>--env deploy --verbose=1\<close>,
  with \<open>env\<close> equal to \<open>deploy\<close>. With the name, it removes the first token equal to the
  name, the value of \<open>env\<close>, and the subcommand runs on \<open>--env --verbose=1 deploy\<close>, with
  \<open>env\<close> true. The two dispatches differ.
\<close>

theorem alias_dispatch_differs_at_input:
  "alias_command ''d'' ''deploy'' (main_node [''--env'', ''deploy'', ''--verbose=1'', ''d''])
     = Inr (aliased_node [''--env'', ''deploy'', ''--verbose=1'', ''d''])
   \<and> alias_command ''d'' ''deploy'' (main_node [''--env'', ''deploy'', ''--verbose=1'', ''deploy''])
     = Inr (aliased_node [''--env'', ''deploy'', ''--verbose=1'', ''deploy''])
   \<and> fst (DISPATCH demo_lib plain_host
             (aliased_node [''--env'', ''deploy'', ''--verbose=1'', ''d'']))
     = RunCalled ''DeployCommand''
         \<lparr> ctx_argv = [(''_'', Arr []), (''env'', Str ''deploy''), (''verbose'', Num 1),
                       (''help'', Undefined), (''h'', Undefined), (''version'', Undefined),
                       (''v'', Undefined)],
           ctx_cwd = ''/work'', ctx_env = [],
           ctx_rawArgv = [''--env'', ''deploy'', ''--verbose=1''],
           ctx_execArgv = None, ctx_execArgvObj = None, ctx_debugOptions = None,
           ctx_debugPort = None \<rparr>
   \<and> fst (DISPATCH demo_lib plain_host
             (aliased_node [''--env'', ''deploy'', ''--verbose=1'', ''deploy'']))
     = RunCalled ''DeployCommand''
         \<lparr> ctx_argv = [(''_'', Arr [Str ''deploy'']), (''env'', Bool True), (''verbose'', Num 1),
                       (''help'', Undefined), (''h'', Undefined), (''version'', Undefined),
                       (''v'', Undefined)],
           ctx_cwd = ''/work'', ctx_env = [],
           ctx_rawArgv = [''--env'', ''--verbose=1'', ''deploy''],
           ctx_execArgv = None, ctx_execArgvObj = None, ctx_debugOptions = None,
           ctx_debugPort = None \<rparr>"
proof -
  let ?va = "[''--env'', ''deploy'', ''--verbose=1'', ''d'']"
  let ?vn = "[''--env'', ''deploy'', ''--verbose=1'', ''deploy'']"
  let ?ra = "[''--env'', ''deploy'', ''--verbose=1'']"
  let ?rn = "[''--env'', ''--verbose=1'', ''deploy'']"
  have al: "alias_command ''d'' ''deploy'' (main_node v) = Inr (aliased_node v)" for v
    by (simp add: alias_command_def aliased_node_def main_node_def construct_def main_class_def)
  have reda: "reduced_argv ?va ''d'' = ?ra"
    by (simp add: reduced_argv_def js_splice_def Let_def)
  have redn: "reduced_argv ?vn ''deploy'' = ?rn"
    by (simp add: reduced_argv_def js_splice_def Let_def)
  have rawa: "rawArgv (aliased_node ?va) = ?va"
    by (simp add: aliased_node_def main_node_def construct_def)
  have rawn: "rawArgv (aliased_node ?vn) = ?vn"
    by (simp add: aliased_node_def main_node_def construct_def)
  have pa: "DISPATCH demo_lib plain_host (aliased_node ?va) =
      (fst (DISPATCH demo_lib plain_host (construct demo_lib plain_host deploy_class
         (Some (reduced_argv (rawArgv (aliased_node ?va)) ''d'')))), aliased_node ?va)"
    by (rule dispatch_delegates [where parsed =
          "[(''_'', Arr [Str ''d'']), (''env'', Str ''deploy''), (''verbose'', Num 1)]"])
       (simp_all add: aliased_node_def main_node_def construct_def demo_lib_def demo_yargs_def
          demo_parse_def main_class_def obj_get_def version_requested_def)
  have pn: "DISPATCH demo_lib plain_host (aliased_node ?vn) =
      (fst (DISPATCH demo_lib plain_host (construct demo_lib plain_host deploy_class
         (Some (reduced_argv (rawArgv (aliased_node ?vn)) ''deploy'')))), aliased_node ?vn)"
    by (rule dispatch_delegates [where parsed =
          "[(''_'', Arr [Str ''deploy'']), (''env'', Str ''deploy''), (''verbose'', Num 1)]"])
       (simp_all add: aliased_node_def main_node_def construct_def demo_lib_def demo_yargs_def
          demo_parse_def main_class_def obj_get_def version_requested_def)
  let ?ca = "construct demo_lib plain_host deploy_class (Some ?ra)"
  let ?cn = "construct demo_lib plain_host deploy_class (Some ?rn)"
  have ca: "DISPATCH demo_lib plain_host ?ca = run_self plain_host ?ca"
    by (rule dispatch_runs_self [where parsed =
          "[(''_'', Arr []), (''env'', Str ''deploy''), (''verbose'', Num 1)]"
          and commandName = Undefined])
       (simp_all add: construct_def demo_lib_def demo_yargs_def demo_parse_def
          deploy_class_def obj_get_def version_requested_def)
  have cn: "DISPATCH demo_lib plain_host ?cn = run_self plain_host ?cn"
    by (rule dispatch_runs_self [where parsed =
          "[(''_'', Arr [Str ''deploy'']), (''env'', Bool True), (''verbose'', Num 1)]"
          and commandName = "Str ''deploy''"])
       (simp_all add: construct_def demo_lib_def demo_yargs_def demo_parse_def
          deploy_class_def obj_get_def version_requested_def)
  have sa: "fst (run_self plain_host ?ca) = RunCalled ''DeployCommand''
         \<lparr> ctx_argv = [(''_'', Arr []), (''env'', Str ''deploy''), (''verbose'', Num 1),
                       (''help'', Undefined), (''h'', Undefined), (''version'', Undefined),
                       (''v'', Undefined)],
           ctx_cwd = ''/work'', ctx_env = [],
           ctx_rawArgv = ?ra,
           ctx_execArgv = None, ctx_execArgvObj = None, ctx_debugOptions = None,
           ctx_debugPort = None \<rparr>"
    by (simp add: run_self_def get_context_def construct_def demo_lib_def demo_yargs_def
        demo_parse_def deploy_class_def build_context_def clean_argv_def clear_global_def
        remove_alias_def global_aliases_def merge_exec_def remove_exec_def extractExecArgv_def
        extract_step_def plain_host_def default_parserOptions_def obj_get_def obj_set_def
        Object_keys_def debug_family_def match_def exec_patterns_def Let_def)
  have sn: "fst (run_self plain_host ?cn) = RunCalled ''DeployCommand''
         \<lparr> ctx_argv = [(''_'', Arr [Str ''deploy'']), (''env'', Bool True), (''verbose'', Num 1),
                       (''help'', Undefined), (''h'', Undefined), (''version'', Undefined),
                       (''v'', Undefined)],
           ctx_cwd = ''/work'', ctx_env = [],
           ctx_rawArgv = ?rn,
           ctx_execArgv = None, ctx_execArgvObj = None, ctx_debugOptions = None,
           ctx_debugPort = None \<rparr>"
    by (simp add: run_self_def get_context_def construct_def demo_lib_def demo_yargs_def
        demo_parse_def deploy_class_def build_context_def clean_argv_def clear_global_def
        remove_alias_def global_aliases_def merge_exec_def remove_exec_def extractExecArgv_def
        extract_step_def plain_host_def default_parserOptions_def obj_get_def obj_set_def
        Object_keys_def debug_family_def match_def exec_patterns_def Let_def)
  have da: "fst (DISPATCH demo_lib plain_host (aliased_node ?va)) = fst (run_self plain_host ?ca)"
    by (simp only: pa rawa reda ca fst_conv)
  have dn: "fst (DISPATCH demo_lib plain_host (aliased_node ?vn)) = fst (run_self plain_host ?cn)"
    by (simp only: pn rawn redn cn fst_conv)
  show ?thesis
    by (intro conjI) (rule al, rule al, simp only: da sa, simp only: dn sn)
qed

section \<open>Child processes: invariants\<close>

lemma distinct_set_add: "distinct xs \<Longrightarrow> distinct (set_add x xs)"
  by (simp add: set_add_def)

lemma run_append: "run (xs @ ys) s = run ys (run xs s)"
  by (simp add: run_def)

lemma run_Cons: "run (e # es) s = run es (step e s)"
  by (simp add: run_def)

lemma run_Nil: "run [] s = s"
  by (simp add: run_def)

lemma inv_initial: "sup_inv initial"
  by (simp add: sup_inv_def initial_def)

lemma inv_gracefull: "sup_inv s \<Longrightarrow> sup_inv (gracefull p s)"
  by (auto simp: sup_inv_def gracefull_def Let_def distinct_set_add)

lemma inv_child_emit: "sup_inv s \<Longrightarrow> sup_inv (child_emit p ev s)"
  by (auto simp: sup_inv_def child_emit_def Let_def set_delete_def distinct_removeAll
      split: option.splits child_event.splits)

lemma count_distinct: "distinct xs \<Longrightarrow> count_list xs x = (if x \<in> set xs then 1 else 0)"
  by (induction xs) auto

lemma emit_exit_eq:
  "sup_inv s \<Longrightarrow> emit_exit s =
     (if ''exit'' \<in> set (listeners s)
      then s\<lparr> listeners := removeAll ''exit'' (listeners s),
              kills := map (\<lambda>child. (child, signal s)) (childs s) \<rparr>
      else s)"
  by (auto simp: emit_exit_def Let_def exit_hook_def sup_inv_def count_distinct)

lemma inv_emit_exit: "sup_inv s \<Longrightarrow> sup_inv (emit_exit s)"
  by (auto simp: emit_exit_eq) (auto simp: sup_inv_def distinct_removeAll)

lemma emit_signal_eq:
  "sup_inv s \<Longrightarrow> emit_signal ev s =
     (if ev \<noteq> ''exit'' \<and> ev \<in> set (listeners s)
      then emit_exit (s\<lparr> listeners := removeAll ev (listeners s), signal := Some ev \<rparr>)
      else s)"
  by (auto simp: emit_signal_def Let_def signal_hook_def sup_inv_def count_distinct)

lemma inv_emit_signal: "sup_inv s \<Longrightarrow> sup_inv (emit_signal ev s)"
proof -
  assume i: "sup_inv s"
  then have "sup_inv (s\<lparr> listeners := removeAll ev (listeners s), signal := Some ev \<rparr>)"
    by (auto simp: sup_inv_def distinct_removeAll)
  then have "sup_inv (emit_exit (s\<lparr> listeners := removeAll ev (listeners s), signal := Some ev \<rparr>))"
    by (rule inv_emit_exit)
  with i show ?thesis by (simp add: emit_signal_eq)
qed

lemma inv_launch:
  "sup_inv s \<Longrightarrow> sup_inv (forkNode p m a s)" "sup_inv s \<Longrightarrow> sup_inv (spawn p m a s)"
  using inv_gracefull [of s p] by (simp_all add: forkNode_def spawn_def Let_def sup_inv_def)

lemma inv_step: "sup_inv s \<Longrightarrow> sup_inv (step e s)"
  by (cases e) (simp_all add: inv_launch inv_child_emit inv_emit_signal inv_emit_exit)

lemma inv_run_from: "sup_inv s \<Longrightarrow> sup_inv (run evs s)"
  by (induction evs arbitrary: s) (simp_all add: run_Nil run_Cons inv_step)

lemma inv_run: "sup_inv (run evs initial)"
  by (rule inv_run_from [OF inv_initial])

lemma shut_step: "sup_inv s \<Longrightarrow> shut s \<Longrightarrow> shut (step e s) \<and> kills (step e s) = kills s"
proof (cases e)
  case (Fork p m a)
  assume "sup_inv s" "shut s"
  then show ?thesis using Fork by (simp add: shut_def forkNode_def gracefull_def Let_def)
next
  case (Spawn p m a)
  assume "sup_inv s" "shut s"
  then show ?thesis using Spawn by (simp add: shut_def spawn_def gracefull_def Let_def)
next
  case (Child p ev)
  assume "sup_inv s" "shut s"
  then show ?thesis using Child
    by (auto simp: shut_def child_emit_def Let_def split: option.splits child_event.splits)
next
  case (Signal ev)
  assume i: "sup_inv s" and sh: "shut s"
  let ?s = "s\<lparr> listeners := removeAll ev (listeners s), signal := Some ev \<rparr>"
  have i': "sup_inv ?s" using i by (auto simp: sup_inv_def distinct_removeAll)
  have nx: "''exit'' \<notin> set (listeners ?s)" using sh by (simp add: shut_def)
  have ee: "emit_exit ?s = ?s" by (simp only: emit_exit_eq [OF i'] nx if_False)
  have sh': "shut ?s \<and> kills ?s = kills s" using sh by (simp add: shut_def)
  show ?thesis
  proof (cases "ev \<noteq> ''exit'' \<and> ev \<in> set (listeners s)")
    case True
    then have "step e s = ?s" using Signal ee by (simp add: emit_signal_eq [OF i])
    with sh' show ?thesis by simp
  next
    case False
    then have "step e s = s" using Signal by (auto simp: emit_signal_eq [OF i])
    with sh show ?thesis by simp
  qed
next
  case ProcessExit
  assume "sup_inv s" "shut s"
  then show ?thesis using ProcessExit by (simp add: emit_exit_eq shut_def)
qed

lemma shut_run: "sup_inv s \<Longrightarrow> shut s \<Longrightarrow> kills (run evs s) = kills s"
proof (induction evs arbitrary: s)
  case Nil then show ?case by (simp add: run_Nil)
next
  case (Cons e evs)
  from Cons.prems have "shut (step e s)" "kills (step e s) = kills s" "sup_inv (step e s)"
    by (simp_all add: shut_step inv_step)
  with Cons.IH [of "step e s"] show ?case by (simp add: run_Cons)
qed

lemma signal_kills:
  assumes i: "sup_inv s" and ex: "''exit'' \<in> set (listeners s)" and sg: "sg \<in> set (listeners s)"
      and ne: "sg \<noteq> ''exit''"
  shows "kills (step (Signal sg) s) = map (\<lambda>c. (c, Some sg)) (childs s)"
    and "shut (step (Signal sg) s)"
proof -
  let ?s = "s\<lparr> listeners := removeAll sg (listeners s), signal := Some sg \<rparr>"
  have i': "sup_inv ?s" using i by (auto simp: sup_inv_def distinct_removeAll)
  have ex': "''exit'' \<in> set (listeners ?s)" using ex ne by simp
  have h: "hadHook s" using i sg by (auto simp: sup_inv_def)
  have e: "step (Signal sg) s = emit_exit ?s" using sg ne by (simp add: emit_signal_eq [OF i])
  have x: "emit_exit ?s = ?s\<lparr> listeners := removeAll ''exit'' (listeners ?s),
              kills := map (\<lambda>child. (child, signal ?s)) (childs ?s) \<rparr>"
    using ex' by (simp only: emit_exit_eq [OF i'] if_True)
  show "kills (step (Signal sg) s) = map (\<lambda>c. (c, Some sg)) (childs s)"
    by (simp only: e x) simp
  show "shut (step (Signal sg) s)"
    using h by (simp only: e x) (simp add: shut_def)
qed

text \<open>Traces without an event of the process itself: the parent runs, no signal yet.\<close>

lemma quiet_step:
  assumes "\<not> process_event e"
  shows "kills (step e s) = kills s" "signal (step e s) = signal s"
    "hadHook (step e s) = (hadHook s \<or> launch_of e \<noteq> None)"
    "listeners (step e s) = (if \<not> hadHook s \<and> launch_of e \<noteq> None
        then listeners s @ [''SIGINT'', ''SIGQUIT'', ''SIGTERM'', ''exit''] else listeners s)"
  using assms
  by (cases e; auto simp: forkNode_def spawn_def gracefull_def child_emit_def Let_def
      split: option.splits child_event.splits)+

lemma quiet_run:
  assumes "\<forall>e \<in> set evs. \<not> process_event e"
  shows "kills (run evs s) = kills s \<and>
     hadHook (run evs s) = (hadHook s \<or> (\<exists>e \<in> set evs. launch_of e \<noteq> None)) \<and>
     listeners (run evs s) = (if \<not> hadHook s \<and> (\<exists>e \<in> set evs. launch_of e \<noteq> None)
        then listeners s @ [''SIGINT'', ''SIGQUIT'', ''SIGTERM'', ''exit''] else listeners s)"
  using assms
proof (induction evs arbitrary: s)
  case Nil then show ?case by (simp add: run_Nil)
next
  case (Cons e evs)
  then have q: "\<not> process_event e" and qs: "\<forall>e \<in> set evs. \<not> process_event e" by simp_all
  from Cons.IH [OF qs, of "step e s"] quiet_step [OF q, of s]
  show ?case by (auto simp: run_Cons)
qed


lemma kill_count_map:
  "length (filter (\<lambda>k. fst k = c) (map (\<lambda>c. (c, sig)) cs)) = count_list cs c"
  by (induction cs) auto

lemma installs_le: "installs (run tr initial) \<le> 1"
  using inv_run [of tr] by (simp add: sup_inv_def)

lemma no_launch_no_hook:
  assumes "\<forall>e \<in> set tr. launch_of e = None"
  shows "installs (run tr initial) = 0 \<and> listeners (run tr initial) = []"
proof -
  have step_keep: "launch_of e = None \<Longrightarrow> \<not> hadHook s \<Longrightarrow> listeners s = [] \<Longrightarrow>
      \<not> hadHook (step e s) \<and> listeners (step e s) = []" for e s
    by (cases e) (auto simp: child_emit_def emit_signal_def emit_exit_def Let_def
        split: option.splits child_event.splits)
  have "\<not> hadHook s \<Longrightarrow> listeners s = [] \<Longrightarrow>
        \<not> hadHook (run tr s) \<and> listeners (run tr s) = []" for s
    using assms
  proof (induction tr arbitrary: s)
    case Nil then show ?case by (simp add: run_Nil)
  next
    case (Cons e tr)
    from Cons.prems have "launch_of e = None" by simp
    from step_keep [OF this Cons.prems(1,2)] Cons.IH [of "step e s"] Cons.prems(3)
    show ?case by (simp add: run_Cons)
  qed
  from this [of initial] have "\<not> hadHook (run tr initial) \<and> listeners (run tr initial) = []"
    by (simp add: initial_def)
  with inv_run [of tr] show ?thesis by (simp add: sup_inv_def)
qed

text \<open>
  C4. Take any run of the module in which the process itself has had no event yet (no
  signal, no exit) and at least one child was launched, and let one of \<open>SIGINT\<close>,
  \<open>SIGQUIT\<close>, \<open>SIGTERM\<close> arrive. Up to the signal no child was killed. After the signal,
  whatever happens later (further exit events and signals included), the calls of
  \<open>kill\<close> are exactly one call per child registered at the signal, with that signal:
  each registered child is killed once, no other child is killed. The hooks are
  installed at most once in every run, not at all while nothing was launched, and once
  from the first launch on.
\<close>

theorem signal_forwarded_once:
  assumes quiet: "\<forall>e \<in> set evs. \<not> process_event e"
      and launched: "\<exists>e \<in> set evs. launch_of e \<noteq> None"
      and sg: "sg \<in> {''SIGINT'', ''SIGQUIT'', ''SIGTERM''}"
  shows "kills (run evs initial) = []
       \<and> kills (run (evs @ Signal sg # later) initial)
           = map (\<lambda>c. (c, Some sg)) (childs (run evs initial))
       \<and> (\<forall>c \<in> set (childs (run evs initial)).
             kill_count (run (evs @ Signal sg # later) initial) c = 1)
       \<and> (\<forall>c. c \<notin> set (childs (run evs initial)) \<longrightarrow>
             kill_count (run (evs @ Signal sg # later) initial) c = 0)
       \<and> (\<forall>tr. installs (run tr initial) \<le> 1)
       \<and> (\<forall>tr. (\<forall>e \<in> set tr. launch_of e = None) \<longrightarrow>
             installs (run tr initial) = 0 \<and> listeners (run tr initial) = [])
       \<and> installs (run evs initial) = 1"
proof -
  let ?s = "run evs initial"
  let ?t = "run (evs @ Signal sg # later) initial"
  have i: "sup_inv ?s" by (rule inv_run)
  from quiet_run [OF quiet, of initial] launched
  have k0: "kills ?s = []" and h: "hadHook ?s"
    and l: "listeners ?s = [''SIGINT'', ''SIGQUIT'', ''SIGTERM'', ''exit'']"
    by (auto simp: initial_def)
  have ex: "''exit'' \<in> set (listeners ?s)" by (simp add: l)
  have sgl: "sg \<in> set (listeners ?s)" using sg by (auto simp: l)
  have ne: "sg \<noteq> ''exit''" using sg by auto
  have t: "?t = run later (step (Signal sg) ?s)" by (simp add: run_append run_Cons)
  have "kills ?t = kills (step (Signal sg) ?s)"
    unfolding t by (rule shut_run [OF inv_step [OF i] signal_kills(2) [OF i ex sgl ne]])
  with signal_kills(1) [OF i ex sgl ne]
  have k: "kills ?t = map (\<lambda>c. (c, Some sg)) (childs ?s)"
    by simp
  have d: "distinct (childs ?s)" using i by (simp add: sup_inv_def)
  have once: "\<forall>c \<in> set (childs ?s). kill_count ?t c = 1"
    using d by (simp only: kill_count_def k kill_count_map count_distinct) simp
  have never: "\<forall>c. c \<notin> set (childs ?s) \<longrightarrow> kill_count ?t c = 0"
    using d by (simp only: kill_count_def k kill_count_map count_distinct) simp
  have inst: "installs ?s = 1" using i h by (simp add: sup_inv_def)
  from k0 k once never inst installs_le no_launch_no_hook show ?thesis by blast
qed


theorem signal_forwarded_once_witness:
  "kills (run two_children initial) = []
   \<and> kills (run (two_children @ Signal ''SIGTERM'' # [ProcessExit, Signal ''SIGINT'', ProcessExit]) initial)
       = [(1, Some ''SIGTERM''), (2, Some ''SIGTERM'')]
   \<and> kill_count (run (two_children @ Signal ''SIGTERM'' # [ProcessExit, Signal ''SIGINT'', ProcessExit]) initial) 2 = 1
   \<and> installs (run two_children initial) = 1"
proof -
  have q: "\<forall>e \<in> set two_children. \<not> process_event e" by (simp add: two_children_def)
  have l: "\<exists>e \<in> set two_children. launch_of e \<noteq> None" by (simp add: two_children_def)
  have g: "''SIGTERM'' \<in> {''SIGINT'', ''SIGQUIT'', ''SIGTERM''}" by simp
  have c: "childs (run two_children initial) = [1, 2]"
    by (simp add: two_children_def run_def forkNode_def spawn_def gracefull_def set_add_def
        initial_def Let_def)
  from signal_forwarded_once [OF q l g, of "[ProcessExit, Signal ''SIGINT'', ProcessExit]"]
  show ?thesis by (simp add: c)
qed

section \<open>The registry and the exit notification\<close>

lemma unlaunched_initial: "unlaunched p initial"
  by (simp add: unlaunched_def initial_def)

lemma funpow_same_children:
  assumes "\<And>s. same_children (f s) s"
  shows "same_children ((f ^^ k) s) s"
proof (induction k)
  case 0 then show ?case by (simp add: same_children_def)
next
  case (Suc k)
  with assms [of "(f ^^ k) s"] show ?case by (simp add: same_children_def)
qed

lemma emit_exit_same: "same_children (emit_exit s) s"
proof -
  have "same_children ((exit_hook ^^ k) t) t" for k t
    by (rule funpow_same_children) (simp add: same_children_def exit_hook_def)
  from this [of "count_list (listeners s) ''exit''" "s\<lparr> listeners := removeAll ''exit'' (listeners s) \<rparr>"]
  show ?thesis by (simp add: emit_exit_def Let_def same_children_def)
qed

lemma emit_signal_same: "same_children (emit_signal ev s) s"
proof -
  have one: "same_children (signal_hook ev t) t" for t
    using emit_exit_same [of "t\<lparr> signal := Some ev \<rparr>"]
    by (simp add: signal_hook_def same_children_def)
  have "same_children ((signal_hook ev ^^ k) t) t" for k t
    by (rule funpow_same_children) (rule one)
  from this [of "count_list (listeners s) ev" "s\<lparr> listeners := removeAll ev (listeners s) \<rparr>"]
  show ?thesis by (simp add: emit_signal_def Let_def same_children_def)
qed

lemma same_children_stage:
  "same_children t s \<Longrightarrow> unlaunched p t = unlaunched p s"
  "same_children t s \<Longrightarrow> awaiting p t = awaiting p s"
  "same_children t s \<Longrightarrow> gone p t = gone p s"
  by (simp_all add: same_children_def unlaunched_def awaiting_def gone_def)

lemma gracefull_children:
  "childs (gracefull q s) = set_add q (childs s)" "launches (gracefull q s) = launches s"
  "deleted (gracefull q s) = deleted s"
  by (simp_all add: gracefull_def Let_def)

lemma step_unlaunched:
  assumes "launch_of e \<noteq> Some p" "unlaunched p s"
  shows "unlaunched p (step e s)"
proof (cases e)
  case (Fork q m a)
  with assms show ?thesis
    by (auto simp: unlaunched_def forkNode_def Let_def gracefull_children set_add_def update_conv')
next
  case (Spawn q m a)
  with assms show ?thesis
    by (auto simp: unlaunched_def spawn_def Let_def gracefull_children set_add_def update_conv')
next
  case (Child q ev)
  with assms show ?thesis
    by (auto simp: unlaunched_def child_emit_def Let_def set_delete_def update_conv'
        split: option.splits child_event.splits)
next
  case (Signal ev)
  with assms show ?thesis by (simp add: same_children_stage [OF emit_signal_same])
next
  case ProcessExit
  with assms show ?thesis by (simp add: same_children_stage [OF emit_exit_same])
qed

lemma launch_awaiting:
  assumes "launch_of e = Some p" "unlaunched p s"
  shows "awaiting p (step e s)"
proof (cases e)
  case (Fork q m a)
  with assms show ?thesis
    by (auto simp: unlaunched_def awaiting_def forkNode_def Let_def gracefull_children
        set_add_def update_conv')
next
  case (Spawn q m a)
  with assms show ?thesis
    by (auto simp: unlaunched_def awaiting_def spawn_def Let_def gracefull_children
        set_add_def update_conv')
qed (use assms in simp_all)

lemma step_gone:
  assumes "launch_of e \<noteq> Some p" "gone p s"
  shows "gone p (step e s)"
proof (cases e)
  case (Fork q m a)
  with assms show ?thesis
    by (auto simp: gone_def forkNode_def Let_def gracefull_children set_add_def update_conv')
next
  case (Spawn q m a)
  with assms show ?thesis
    by (auto simp: gone_def spawn_def Let_def gracefull_children set_add_def update_conv')
next
  case (Child q ev)
  with assms show ?thesis
    by (auto simp: gone_def child_emit_def Let_def set_delete_def update_conv' settle_def
        split: option.splits child_event.splits)
next
  case (Signal ev)
  with assms show ?thesis by (simp add: same_children_stage [OF emit_signal_same])
next
  case ProcessExit
  with assms show ?thesis by (simp add: same_children_stage [OF emit_exit_same])
qed

lemma step_awaiting:
  assumes "launch_of e \<noteq> Some p" "awaiting p s"
  shows "if exit_of e = Some p then gone p (step e s) else awaiting p (step e s)"
proof (cases e)
  case (Fork q m a)
  with assms show ?thesis
    by (auto simp: awaiting_def forkNode_def Let_def gracefull_children set_add_def update_conv')
next
  case (Spawn q m a)
  with assms show ?thesis
    by (auto simp: awaiting_def spawn_def Let_def gracefull_children set_add_def update_conv')
next
  case (Child q ev)
  with assms show ?thesis
    by (cases ev)
       (auto simp: awaiting_def gone_def child_emit_def Let_def set_delete_def update_conv'
          settle_def split: option.splits)
next
  case (Signal ev)
  with assms show ?thesis by (simp add: same_children_stage [OF emit_signal_same])
next
  case ProcessExit
  with assms show ?thesis by (simp add: same_children_stage [OF emit_exit_same])
qed

lemma run_unlaunched:
  "\<forall>e \<in> set evs. launch_of e \<noteq> Some p \<Longrightarrow> unlaunched p s \<Longrightarrow> unlaunched p (run evs s)"
  by (induction evs arbitrary: s) (simp_all add: run_Nil run_Cons step_unlaunched)

lemma run_gone:
  "\<forall>e \<in> set evs. launch_of e \<noteq> Some p \<Longrightarrow> gone p s \<Longrightarrow> gone p (run evs s)"
  by (induction evs arbitrary: s) (simp_all add: run_Nil run_Cons step_gone)

lemma run_awaiting:
  "\<forall>e \<in> set evs. launch_of e \<noteq> Some p \<Longrightarrow> awaiting p s \<Longrightarrow>
   (if \<exists>e \<in> set evs. exit_of e = Some p then gone p (run evs s) else awaiting p (run evs s))"
proof (induction evs arbitrary: s)
  case Nil then show ?case by (simp add: run_Nil)
next
  case (Cons e evs)
  then have ne: "launch_of e \<noteq> Some p" and nes: "\<forall>e \<in> set evs. launch_of e \<noteq> Some p"
    by simp_all
  show ?case
  proof (cases "exit_of e = Some p")
    case True
    with step_awaiting [OF ne Cons.prems(2)] have "gone p (step e s)" by simp
    from run_gone [OF nes this] True show ?thesis by (simp add: run_Cons)
  next
    case False
    with step_awaiting [OF ne Cons.prems(2)] have "awaiting p (step e s)" by simp
    from Cons.IH [OF nes this] False show ?thesis by (simp add: run_Cons)
  qed
qed

text \<open>
  C5. A child is launched once, by \<open>forkNode\<close> or by \<open>spawn\<close>, and some time later its
  exit is notified, with any exit code; before, between and after, anything may happen
  except a second launch of the same process object. Then at the end the registry does
  not hold the child, and \<open>childs.delete\<close> was called for it exactly once. While no exit
  was notified the child is still registered and nothing was deleted.
\<close>

theorem exited_child_leaves_registry:
  assumes l: "launch_of l = Some p"
      and fresh: "\<forall>e \<in> set (pre @ mid @ post). launch_of e \<noteq> Some p"
  shows "p \<notin> set (childs (run (pre @ l # mid @ Child p (ExitEvent code) # post) initial))
       \<and> count_list (deleted (run (pre @ l # mid @ Child p (ExitEvent code) # post) initial)) p = 1
       \<and> ((\<forall>e \<in> set mid. exit_of e \<noteq> Some p) \<longrightarrow>
            p \<in> set (childs (run (pre @ l # mid) initial))
            \<and> count_list (deleted (run (pre @ l # mid) initial)) p = 0)"
proof -
  from fresh have fpre: "\<forall>e \<in> set pre. launch_of e \<noteq> Some p"
    and fmid: "\<forall>e \<in> set mid. launch_of e \<noteq> Some p"
    and fpost: "\<forall>e \<in> set post. launch_of e \<noteq> Some p" by auto
  let ?a = "run (pre @ [l]) initial"
  have a: "awaiting p ?a"
    using launch_awaiting [OF l run_unlaunched [OF fpre unlaunched_initial]]
    by (simp add: run_append run_Cons run_Nil)
  let ?x = "Child p (ExitEvent code)"
  have fx: "\<forall>e \<in> set (mid @ [?x]). launch_of e \<noteq> Some p" using fmid by simp
  have "gone p (run (mid @ [?x]) ?a)"
    using run_awaiting [OF fx a] by simp
  from run_gone [OF fpost this]
  have g: "gone p (run (pre @ l # mid @ ?x # post) initial)"
    by (simp add: run_append run_Cons run_Nil)
  have w: "awaiting p (run (pre @ l # mid) initial)" if "\<forall>e \<in> set mid. exit_of e \<noteq> Some p"
    using run_awaiting [OF fmid a] that by (simp add: run_append run_Cons run_Nil)
  from g w show ?thesis by (auto simp: gone_def awaiting_def)
qed

theorem exited_child_leaves_registry_witness:
  "2 \<notin> set (childs (run ([Fork 1 ''build.js'' [''--watch'']] @ Spawn 2 ''npm'' [''i''] #
        [Child 2 (ErrorEvent (Error ''kill EPERM'' (Str ''EPERM'')))] @
        Child 2 (ExitEvent (Some 2)) # [Child 1 (ExitEvent (Some 0))]) initial))
   \<and> count_list (deleted (run ([Fork 1 ''build.js'' [''--watch'']] @ Spawn 2 ''npm'' [''i''] #
        [Child 2 (ErrorEvent (Error ''kill EPERM'' (Str ''EPERM'')))] @
        Child 2 (ExitEvent (Some 2)) # [Child 1 (ExitEvent (Some 0))]) initial)) 2 = 1
   \<and> 2 \<in> set (childs (run ([Fork 1 ''build.js'' [''--watch'']] @ Spawn 2 ''npm'' [''i''] #
        [Child 2 (ErrorEvent (Error ''kill EPERM'' (Str ''EPERM'')))]) initial))"
proof -
  have l: "launch_of (Spawn 2 ''npm'' [''i'']) = Some 2" by simp
  have f: "\<forall>e \<in> set ([Fork 1 ''build.js'' [''--watch'']] @
        [Child 2 (ErrorEvent (Error ''kill EPERM'' (Str ''EPERM'')))] @
        [Child 1 (ExitEvent (Some 0))]). launch_of e \<noteq> Some 2"
    by simp
  have m: "\<forall>e \<in> set [Child 2 (ErrorEvent (Error ''kill EPERM'' (Str ''EPERM'')))].
             exit_of e \<noteq> Some 2" by simp
  from exited_child_leaves_registry [OF l f, of "Some 2"] m show ?thesis by blast
qed


section \<open>Settlements\<close>

declare digits.simps [simp del]

lemma digits_small: "n < 10 \<Longrightarrow> digits n = [''0123456789'' ! n]"
  by (subst digits.simps) simp

text \<open>
  C3 at a child that exits with code 2. Launched by \<open>spawn\<close>, the promise is rejected
  with an error that has no \<open>code\<close> property; the exit code stands in the text of the
  message only. Launched by \<open>forkNode\<close>, the error has \<open>code\<close> 2.
\<close>

theorem spawn_exit_error_without_code:
  "promise_of (run [Spawn 2 ''npm'' [''i'', ''left-pad''], Child 2 (ExitEvent (Some 2))] initial) 2
     = Some (Rejected (Error ''spawn npm i left-pad fail, exit code: 2'' Undefined))
   \<and> promise_of (run [Fork 1 ''build.js'' [''--watch''], Child 1 (ExitEvent (Some 2))] initial) 1
     = Some (Rejected (Error ''build.js --watch exit with code 2'' (Num 2)))"
  by (simp add: promise_of_def run_def spawn_def forkNode_def gracefull_def child_emit_def
      settle_def exit_error_def show_int_def digits_small set_add_def set_delete_def
      initial_def Let_def)

text \<open>
  What holds of both launches: a settled promise keeps its settlement, and the first
  exit notification of a pending launch settles it, with success for code 0, and
  removes the child from the registry.
\<close>

lemma settled_stays:
  assumes "launch_of e \<noteq> Some p" "promise_of s p = Some r" "r \<noteq> Pending"
  shows "promise_of (step e s) p = Some r"
proof (cases e)
  case (Fork q m a)
  with assms show ?thesis
    by (auto simp: promise_of_def forkNode_def Let_def gracefull_children update_conv')
next
  case (Spawn q m a)
  with assms show ?thesis
    by (auto simp: promise_of_def spawn_def Let_def gracefull_children update_conv')
next
  case (Child q ev)
  with assms show ?thesis
    by (cases ev)
       (auto simp: promise_of_def child_emit_def Let_def update_conv' settle_def
          split: option.splits)
next
  case (Signal ev)
  with assms emit_signal_same [of ev s] show ?thesis
    by (simp add: promise_of_def same_children_def)
next
  case ProcessExit
  with assms emit_exit_same [of s] show ?thesis
    by (simp add: promise_of_def same_children_def)
qed

lemma first_exit_settles:
  assumes "map_of (launches s) p = Some l" "''exit'' \<in> set (l_once l)" "l_promise l = Pending"
  shows "promise_of (step (Child p (ExitEvent code)) s) p =
           Some (if code = Some 0 then Resolved else Rejected (exit_error l code))"
    and "p \<notin> set (childs (step (Child p (ExitEvent code)) s))"
  using assms
  by (auto simp: promise_of_def child_emit_def Let_def update_conv' settle_def set_delete_def
      exit_error_def split: launch_kind.splits)

end
